theory Spec2Isabelle
  imports Complex_Main "HOL-Library.Word" "HOL-Library.AList" "HOL-Library.Log_Nat"
    "HOL-Library.Sublist"
begin

unbundle bit_operations_syntax

section \<open>Python values, errors and the recorded client calls\<close>

text \<open>
  The embedding follows \<^verbatim>\<open>deepkit/context.py\<close>. Exceptions are values of \<open>error\<close>.
  A Python float that is only transported (packed into a row) is its IEEE-754 binary64
  bit pattern, a \<open>64 word\<close>; a float the code computes with is a \<open>real\<close>. For clock
  differences and rates the arithmetic is exact and rounding of intermediate results is
  not part of the model; the int \<open>0\<close> a rate starts with and the float \<open>0.0\<close> are the
  same value there. The utilisation fields of the hardware row are computed with the
  rounding of binary64 after every operation. Python's \<open>int\<close> is \<open>int\<close>.
\<close>

datatype error = TypeError | ZeroDivisionError | OverflowError | StructError

type_synonym byte = "8 word"
type_synonym f64 = "64 word"
type_synonym f32 = "32 word"

text \<open>The scalars a caller hands to \<^verbatim>\<open>metric\<close>: \<^verbatim>\<open>None\<close>, an int, or a float.\<close>

datatype pyval = PNone | PInt int | PFloat f64

text \<open>The \<^verbatim>\<open>y\<close> argument of \<^verbatim>\<open>metric\<close>: a list, or anything else (a scalar).\<close>

datatype yarg = YScalar pyval | YList "pyval list"

text \<open>Values sent to the client in \<^verbatim>\<open>patch\<close> and \<^verbatim>\<open>job_action\<close>.\<close>

datatype jval =
    JNone
  | JInt int
  | JNum real
  | JFloat f64
  | JStr string
  | JList "jval list"
  | JDict "(string \<times> jval) list"

text \<open>
  The subjects of the context, and what the context does to the outside: calls on
  \<^verbatim>\<open>self.client\<close> and completions of its subjects, in the order they happen.
  \<open>HardwareInterval\<close> is the subscription \<^verbatim>\<open>interval(1).subscribe(on_hardware_metrics)\<close>.
\<close>

datatype subject = MetricSubject | LogSubject | SpeedReportSubject | HardwareInterval

datatype effect =
    Patch string jval
  | JobAction string "jval list"
  | OnCompleted subject
  | ClientShutdown

definition bind_err :: "error + 'a \<Rightarrow> ('a \<Rightarrow> error + 'b) \<Rightarrow> error + 'b" where
  "bind_err r f = (case r of Inl e \<Rightarrow> Inl e | Inr v \<Rightarrow> f v)"

section \<open>\<^verbatim>\<open>struct.pack\<close> with a little-endian format\<close>

definition le_bytes :: "nat \<Rightarrow> 'a::len word \<Rightarrow> byte list" where
  "le_bytes n w = map (\<lambda>i. ucast (drop_bit (8 * i) w)) [0..<n]"

text \<open>Format \<^verbatim>\<open>B\<close>: one unsigned byte; \<^verbatim>\<open>struct.error\<close> outside 0..255.\<close>

definition pack_B :: "int \<Rightarrow> error + byte list" where
  "pack_B n = (if 0 \<le> n \<and> n \<le> 255 then Inr [word_of_int n] else Inl StructError)"

text \<open>Format \<^verbatim>\<open>H\<close>: two bytes, unsigned; \<^verbatim>\<open>struct.error\<close> outside 0..65535.\<close>

definition pack_H :: "int \<Rightarrow> error + byte list" where
  "pack_H n = (if 0 \<le> n \<and> n \<le> 65535 then Inr (le_bytes 2 (word_of_int n :: 16 word))
               else Inl StructError)"

text \<open>Format \<^verbatim>\<open>d\<close>: the eight bytes of a binary64.\<close>

definition pack_d :: "f64 \<Rightarrow> byte list" where
  "pack_d w = le_bytes 8 w"

subsection \<open>\<^verbatim>\<open>float(n)\<close> for an int, and format \<^verbatim>\<open>f\<close>\<close>

text \<open>
  \<open>rne p a\<close> rounds the non-negative integer \<open>a\<close> to \<open>p\<close> significant bits, ties to
  even, as the conversion of an int to a float and of a binary64 to a binary32 do.
\<close>

definition rne :: "nat \<Rightarrow> int \<Rightarrow> int" where
  "rne p a =
     (let n = nat (bitlen a) in
      if n \<le> p then a
      else (let sh = n - p; q = a div 2 ^ sh; r = a mod 2 ^ sh; half = 2 ^ (sh - 1);
                q' = (if half < r \<or> (r = half \<and> odd q) then q + 1 else q)
            in q' * 2 ^ sh))"

text \<open>
  The bit pattern, in a format of \<open>w\<close> bits with \<open>p\<close> significant bits, of the
  integer-valued float with sign \<open>neg\<close> and magnitude \<open>v\<close> (which has at most \<open>p\<close>
  significant bits); \<^verbatim>\<open>OverflowError\<close> when the exponent exceeds the format's.
\<close>

definition ieee_bits :: "nat \<Rightarrow> nat \<Rightarrow> bool \<Rightarrow> int \<Rightarrow> error + int" where
  "ieee_bits w p neg v =
     (if v = 0 then Inr 0
      else (let e = nat (bitlen v) - 1; bias = 2 ^ (w - p - 1) - 1 in
            if bias < e then Inl OverflowError
            else Inr ((if neg then 2 ^ (w - 1) else 0) + (int e + int bias) * 2 ^ (p - 1)
                      + ((v * 2 ^ (p - 1)) div 2 ^ e - 2 ^ (p - 1)))))"

text \<open>\<^verbatim>\<open>float(n)\<close> for an int \<open>n\<close>: correctly rounded, \<^verbatim>\<open>OverflowError\<close> when too large.\<close>

definition float_of_int :: "int \<Rightarrow> error + f64" where
  "float_of_int n = bind_err (ieee_bits 64 53 (n < 0) (rne 53 \<bar>n\<bar>)) (\<lambda>b. Inr (word_of_int b))"

text \<open>
  \<^verbatim>\<open>struct.pack('<f', float(n))\<close> for an int \<open>n\<close>: the int is rounded to a binary64,
  that to a binary32, and its four bytes are written.
\<close>

definition f32_of_int :: "int \<Rightarrow> error + f32" where
  "f32_of_int n =
     bind_err (float_of_int n) (\<lambda>_.
     bind_err (ieee_bits 32 24 (n < 0) (rne 24 (rne 53 \<bar>n\<bar>))) (\<lambda>b. Inr (word_of_int b)))"

definition pack_f_int :: "int \<Rightarrow> error + byte list" where
  "pack_f_int n = bind_err (f32_of_int n) (\<lambda>w. Inr (le_bytes 4 w))"

text \<open>\<^verbatim>\<open>float(v)\<close>: \<^verbatim>\<open>TypeError\<close> on \<^verbatim>\<open>None\<close>, the identity on a float.\<close>

fun py_float :: "pyval \<Rightarrow> error + f64" where
  "py_float PNone = Inl TypeError"
| "py_float (PInt n) = float_of_int n"
| "py_float (PFloat w) = Inr w"

section \<open>\<^verbatim>\<open>base64.b64encode(v).decode('utf8')\<close>\<close>

definition b64_alphabet :: string where
  "b64_alphabet = ''ABCDEFGHIJKLMNOPQRSTUVWXYZabcdefghijklmnopqrstuvwxyz0123456789+/''"

definition b64_char :: "byte \<Rightarrow> char" where
  "b64_char i = b64_alphabet ! unat (i AND 63)"

fun b64encode :: "byte list \<Rightarrow> string" where
  "b64encode (a # b # c # rest) =
     [b64_char (drop_bit 2 a),
      b64_char (push_bit 4 (a AND 3) OR drop_bit 4 b),
      b64_char (push_bit 2 (b AND 15) OR drop_bit 6 c),
      b64_char (c AND 63)] @ b64encode rest"
| "b64encode [a, b] =
     [b64_char (drop_bit 2 a),
      b64_char (push_bit 4 (a AND 3) OR drop_bit 4 b),
      b64_char (push_bit 2 (b AND 15)),
      CHR ''='']"
| "b64encode [a] =
     [b64_char (drop_bit 2 a), b64_char (push_bit 4 (a AND 3)), CHR ''='', CHR ''='']"
| "b64encode [] = []"

section \<open>The metric row (\<^verbatim>\<open>Context.metric\<close>, lines 298 to 303)\<close>

text \<open>\<^verbatim>\<open>if not isinstance(y, list): y = [y]\<close>\<close>

fun as_list :: "yarg \<Rightarrow> pyval list" where
  "as_list (YList ys) = ys"
| "as_list (YScalar v) = [v]"

text \<open>\<^verbatim>\<open>struct.pack('<d', float(y1) if y1 is not None else 0.0)\<close>\<close>

definition pack_value :: "pyval \<Rightarrow> error + byte list" where
  "pack_value y1 = (if y1 \<noteq> PNone then bind_err (py_float y1) (\<lambda>w. Inr (pack_d w))
                    else Inr (pack_d 0))"

text \<open>The loop \<^verbatim>\<open>for y1 in y: row_binary += struct.pack(...)\<close>.\<close>

fun pack_values :: "byte list \<Rightarrow> pyval list \<Rightarrow> error + byte list" where
  "pack_values row_binary [] = Inr row_binary"
| "pack_values row_binary (y1 # y) =
     bind_err (pack_value y1) (\<lambda>bs. pack_values (row_binary @ bs) y)"

text \<open>
  \<^verbatim>\<open>struct.pack('<BHdd', 1, len(y), float(x), time.time())\<close> and the loop. The
  arguments are evaluated first, so a failing \<^verbatim>\<open>float(x)\<close> is raised before the
  range check of \<^verbatim>\<open>len(y)\<close>. \<open>now\<close> is what \<^verbatim>\<open>time.time()\<close> returned.
\<close>

definition metric_row :: "pyval \<Rightarrow> pyval list \<Rightarrow> f64 \<Rightarrow> error + byte list" where
  "metric_row x y now =
     bind_err (py_float x) (\<lambda>fx.
     bind_err (pack_B 1) (\<lambda>v.
     bind_err (pack_H (int (length y))) (\<lambda>h.
     pack_values (v @ h @ pack_d fx @ pack_d now) y)))"

subsection \<open>Reading a row back by the documented layout\<close>

text \<open>
  The repository has no decoder. These functions read a byte sequence by the layout the
  specification gives: little-endian fields at fixed offsets.
\<close>

definition from_le :: "byte list \<Rightarrow> 'a::len word" where
  "from_le bs = foldr (\<lambda>b acc. push_bit 8 acc OR ucast b) bs 0"

fun read_doubles :: "nat \<Rightarrow> byte list \<Rightarrow> f64 list" where
  "read_doubles 0 bs = []"
| "read_doubles (Suc n) bs = from_le (take 8 bs) # read_doubles n (drop 8 bs)"

record metric_fields =
  mf_version :: nat
  mf_value_count :: nat
  mf_x :: f64
  mf_timestamp :: f64
  mf_values :: "f64 list"

text \<open>
  version (1 byte), value count (2 bytes, unsigned), x (8 bytes), timestamp (8 bytes),
  then one 8-byte float per value; \<open>None\<close> when the length does not fit the count.
\<close>

definition spec_decode_metric_row :: "byte list \<Rightarrow> metric_fields option" where
  "spec_decode_metric_row bs =
     (if length bs < 19 then None
      else (let count = unat (from_le (take 2 (drop 1 bs)) :: 16 word) in
            if length bs \<noteq> 19 + 8 * count then None
            else Some \<lparr> mf_version = unat (hd bs),
                        mf_value_count = count,
                        mf_x = from_le (take 8 (drop 3 bs)),
                        mf_timestamp = from_le (take 8 (drop 11 bs)),
                        mf_values = read_doubles count (drop 19 bs) \<rparr>))"

text \<open>The binary64 a value of the list is stored as: \<open>0.0\<close> for \<^verbatim>\<open>None\<close>.\<close>

definition stored_value :: "pyval \<Rightarrow> error + f64" where
  "stored_value y1 = (case y1 of PNone \<Rightarrow> Inr 0 | _ \<Rightarrow> py_float y1)"

section \<open>The state of a \<^verbatim>\<open>Context\<close>\<close>

text \<open>An entry of \<^verbatim>\<open>seconds_per_iterations\<close>: \<^verbatim>\<open>{'diff': ..., 'when': ...}\<close>.\<close>

record sample =
  diff :: real
  "when" :: real

text \<open>
  A \<^verbatim>\<open>Subject\<close> piped through \<^verbatim>\<open>buffer(interval(1))\<close>: the items pushed since the last
  tick of the timer, and whether the subject has completed.
\<close>

record 'a buffered =
  pending :: "'a list"
  is_stopped :: bool

text \<open>
  The fields of \<^verbatim>\<open>Context\<close>. \<open>defined_metrics\<close> holds the keys of the dict (every
  value is \<^verbatim>\<open>{}\<close>). \<open>effects\<close> records, oldest first, the calls on
  \<^verbatim>\<open>self.client\<close> and the completions of subjects.
\<close>

record "context" =
  defined_metrics :: "string set"
  log_subject :: "string buffered"
  metric_subject :: "(string \<times> byte list) buffered"
  speed_report_subject :: "byte list buffered"
  shutting_down :: bool
  last_iteration_time :: real
  last_batch_time :: real
  job_iteration :: int
  job_iterations :: int
  seconds_per_iteration :: real
  seconds_per_iterations :: "sample list"
  effects :: "effect list"

definition patch :: "string \<Rightarrow> jval \<Rightarrow> context \<Rightarrow> context" where
  "patch key v s = s\<lparr>effects := effects s @ [Patch key v]\<rparr>"

definition job_action :: "string \<Rightarrow> jval list \<Rightarrow> context \<Rightarrow> context" where
  "job_action name args s = s\<lparr>effects := effects s @ [JobAction name args]\<rparr>"

definition client_shutdown :: "context \<Rightarrow> context" where
  "client_shutdown s = s\<lparr>effects := effects s @ [ClientShutdown]\<rparr>"

text \<open>\<^verbatim>\<open>Subject.on_next\<close>: an item pushed after completion is dropped.\<close>

definition on_next :: "'a \<Rightarrow> 'a buffered \<Rightarrow> 'a buffered" where
  "on_next v b = (if is_stopped b then b else b\<lparr>pending := pending b @ [v]\<rparr>)"

section \<open>The flush callbacks of \<^verbatim>\<open>Context.__init__\<close>\<close>

text \<open>
  \<^verbatim>\<open>packed\<close> is a dict; it keeps its keys in insertion order, so it is an association
  list. One round of the loop \<^verbatim>\<open>for d in data\<close> of \<^verbatim>\<open>on_metric\<close>:
\<close>

definition pack_item ::
  "(string \<times> byte list) list \<Rightarrow> string \<times> byte list \<Rightarrow> (string \<times> byte list) list" where
  "pack_item packed d =
     (let packed1 = (if fst d \<notin> fst ` set packed then AList.update (fst d) [] packed
                     else packed)
      in case map_of packed1 (fst d) of
           Some v \<Rightarrow> AList.update (fst d) (v @ snd d) packed1
         | None \<Rightarrow> packed1)"

definition on_metric :: "(string \<times> byte list) list \<Rightarrow> context \<Rightarrow> context" where
  "on_metric data s =
     (if length data = 0 then s
      else (let packed = foldl pack_item [] data in
            fold (\<lambda>(i, v). job_action ''channelData'' [JStr i, JStr (b64encode v)]) packed s))"

definition on_speed_report :: "byte list list \<Rightarrow> context \<Rightarrow> context" where
  "on_speed_report rows s =
     (if length rows = 0 then s
      else job_action ''streamFile''
             [JStr ''.deepkit/speed.metric'', JStr (b64encode (last rows))] s)"

definition on_log :: "string list \<Rightarrow> context \<Rightarrow> context" where
  "on_log data s =
     (if length data = 0 then s
      else (let packed = foldl (\<lambda>packed d. packed @ d) [] data in
            job_action ''log'' [JStr ''main_0'', JStr packed] s))"

subsection \<open>The one-second windows\<close>

text \<open>
  A tick of \<^verbatim>\<open>interval(1)\<close> hands the items buffered since the previous tick to the
  subscriber, an empty list included, and starts a new buffer. A completed subject
  emits nothing more.
\<close>

definition metric_tick :: "context \<Rightarrow> context" where
  "metric_tick s =
     (if is_stopped (metric_subject s) then s
      else on_metric (pending (metric_subject s))
             (s\<lparr>metric_subject := (metric_subject s)\<lparr>pending := []\<rparr>\<rparr>))"

definition speed_tick :: "context \<Rightarrow> context" where
  "speed_tick s =
     (if is_stopped (speed_report_subject s) then s
      else on_speed_report (pending (speed_report_subject s))
             (s\<lparr>speed_report_subject := (speed_report_subject s)\<lparr>pending := []\<rparr>\<rparr>))"

definition log_tick :: "context \<Rightarrow> context" where
  "log_tick s =
     (if is_stopped (log_subject s) then s
      else on_log (pending (log_subject s))
             (s\<lparr>log_subject := (log_subject s)\<lparr>pending := []\<rparr>\<rparr>))"

text \<open>
  \<^verbatim>\<open>Subject.on_completed\<close>: the open buffer is handed to the subscriber, and the subject
  accepts nothing afterwards. Completing a completed subject does nothing.
\<close>

definition metric_on_completed :: "context \<Rightarrow> context" where
  "metric_on_completed s =
     (if is_stopped (metric_subject s) then s
      else (let s1 = s\<lparr>effects := effects s @ [OnCompleted MetricSubject]\<rparr>;
                s2 = metric_tick s1
            in s2\<lparr>metric_subject := (metric_subject s2)\<lparr>is_stopped := True\<rparr>\<rparr>))"

definition log_on_completed :: "context \<Rightarrow> context" where
  "log_on_completed s =
     (if is_stopped (log_subject s) then s
      else (let s1 = s\<lparr>effects := effects s @ [OnCompleted LogSubject]\<rparr>;
                s2 = log_tick s1
            in s2\<lparr>log_subject := (log_subject s2)\<lparr>is_stopped := True\<rparr>\<rparr>))"

section \<open>\<^verbatim>\<open>Context.__init__\<close> and \<^verbatim>\<open>Context.shutdown\<close>\<close>

text \<open>
  The fields as \<^verbatim>\<open>__init__\<close> sets them; \<open>last_logs\<close> is
  \<^verbatim>\<open>deepkit.globals.last_logs.getvalue()\<close>, pushed to the log subject when not empty.
\<close>

definition new_context :: "string \<Rightarrow> context" where
  "new_context last_logs =
     \<lparr> defined_metrics = {},
       log_subject = (if length last_logs > 0
                      then on_next last_logs \<lparr>pending = [], is_stopped = False\<rparr>
                      else \<lparr>pending = [], is_stopped = False\<rparr>),
       metric_subject = \<lparr>pending = [], is_stopped = False\<rparr>,
       speed_report_subject = \<lparr>pending = [], is_stopped = False\<rparr>,
       shutting_down = False,
       last_iteration_time = 0,
       last_batch_time = 0,
       job_iteration = 0,
       job_iterations = 0,
       seconds_per_iteration = 0,
       seconds_per_iterations = [],
       effects = [] \<rparr>"

definition shutdown :: "context \<Rightarrow> context" where
  "shutdown s =
     (if shutting_down s then s
      else (let s1 = s\<lparr>shutting_down := True\<rparr>;
                s2 = metric_on_completed s1;
                s3 = log_on_completed s2
            in client_shutdown s3))"

section \<open>\<^verbatim>\<open>Context.iteration\<close> and \<^verbatim>\<open>Context.step\<close>\<close>

text \<open>
  Below, \<open>tot\<close> and \<open>sz\<close> stand for the parameters \<^verbatim>\<open>total\<close> and \<^verbatim>\<open>size\<close>.
  The truth value of an \<^verbatim>\<open>Optional[int]\<close>: \<^verbatim>\<open>None\<close> and \<^verbatim>\<open>0\<close> are false.
\<close>

definition truthy :: "int option \<Rightarrow> bool" where
  "truthy tot = (case tot of None \<Rightarrow> False | Some t \<Rightarrow> t \<noteq> 0)"

text \<open>
  The two statements under the comment \<^verbatim>\<open># remove all older than twenty seconds\<close>:
  the filter on \<^verbatim>\<open>now - x['when'] < 20\<close>, then the slice \<^verbatim>\<open>[-30:]\<close>.
\<close>

definition remove_old :: "real \<Rightarrow> sample list \<Rightarrow> sample list" where
  "remove_old now xs =
     (let kept = filter (\<lambda>x. now - when x < 20) xs
      in drop (length kept - 30) kept)"

text \<open>\<^verbatim>\<open>diffs = [x['diff'] for x in ...]; sum(diffs) / len(diffs)\<close>\<close>

definition average :: "sample list \<Rightarrow> real" where
  "average xs = (let diffs = map diff xs in sum_list diffs / real (length diffs))"

text \<open>
  \<open>now\<close> is what \<^verbatim>\<open>time.time()\<close> returned in the call. Lines 188 to 208 of
  \<^verbatim>\<open>iteration\<close>: the counters are set, the sample appended, the window pruned and the
  rate recomputed.
\<close>

definition iteration_record :: "int \<Rightarrow> int option \<Rightarrow> real \<Rightarrow> context \<Rightarrow> context" where
  "iteration_record current tot now s0 =
     (let s1 = s0\<lparr>job_iteration := current\<rparr>;
          s2 = (if truthy tot then s1\<lparr>job_iterations := the tot\<rparr> else s1);
          s3 = (if last_iteration_time s2 \<noteq> 0
                then s2\<lparr>seconds_per_iterations := seconds_per_iterations s2 @
                          [\<lparr>diff = now - last_iteration_time s2, when = now\<rparr>]\<rparr>
                else s2);
          s4 = s3\<lparr>last_iteration_time := now, last_batch_time := now\<rparr>;
          s5 = s4\<lparr>seconds_per_iterations := remove_old now (seconds_per_iterations s4)\<rparr>
      in if length (seconds_per_iterations s5) > 0
         then s5\<lparr>seconds_per_iteration := average (seconds_per_iterations s5)\<rparr>
         else s5)"

text \<open>Lines 210 to 221 of \<^verbatim>\<open>iteration\<close>: the patches.\<close>

definition iteration_report :: "int option \<Rightarrow> context \<Rightarrow> context" where
  "iteration_report tot s6 =
     (let s7 = (if seconds_per_iteration s6 \<noteq> 0
                then patch ''secondsPerIteration'' (JNum (seconds_per_iteration s6)) s6
                else s6);
          s8 = patch ''iteration'' (JInt (job_iteration s7)) s7;
          s9 = (if truthy tot then patch ''iterations'' (JInt (job_iterations s8)) s8 else s8);
          iterations_left = job_iterations s9 - job_iteration s9
      in if iterations_left > 0
         then patch ''eta'' (JNum (seconds_per_iteration s9 * real_of_int iterations_left)) s9
         else patch ''eta'' (JInt 0) s9)"

definition iteration :: "int \<Rightarrow> int option \<Rightarrow> real \<Rightarrow> context \<Rightarrow> context" where
  "iteration current tot now s0 = iteration_report tot (iteration_record current tot now s0)"

text \<open>
  \<^verbatim>\<open>x = self.job_iteration + (current / total)\<close>: \<^verbatim>\<open>TypeError\<close> when \<^verbatim>\<open>total\<close> is
  \<^verbatim>\<open>None\<close>, \<^verbatim>\<open>ZeroDivisionError\<close> when it is 0.
\<close>

definition step_x :: "int \<Rightarrow> int \<Rightarrow> int option \<Rightarrow> error + real" where
  "step_x job_it current tot =
     (case tot of
        None \<Rightarrow> Inl TypeError
      | Some t \<Rightarrow> if t = 0 then Inl ZeroDivisionError
                  else Inr (real_of_int job_it + real_of_int current / real_of_int t))"

text \<open>
  \<^verbatim>\<open>size / (now - self.last_batch_time) if self.last_batch_time else size\<close>; the
  result is \<^verbatim>\<open>None\<close> when \<^verbatim>\<open>size\<close> is and nothing is divided.
\<close>

definition step_speed :: "int option \<Rightarrow> real \<Rightarrow> real \<Rightarrow> error + real option" where
  "step_speed sz now last_batch =
     (if last_batch \<noteq> 0
      then (case sz of
              None \<Rightarrow> Inl TypeError
            | Some z \<Rightarrow> if now - last_batch = 0 then Inl ZeroDivisionError
                        else Inr (Some (real_of_int z / (now - last_batch))))
      else Inr (map_option real_of_int sz))"

text \<open>
  \<^verbatim>\<open>struct.pack('<Bddd', 1, float(x), now, float(speed_per_second))\<close>. \<open>dbl\<close> gives
  the binary64 pattern of a computed float; \<^verbatim>\<open>float(None)\<close> is a \<^verbatim>\<open>TypeError\<close>.
\<close>

definition speed_row :: "(real \<Rightarrow> f64) \<Rightarrow> real \<Rightarrow> real \<Rightarrow> real option \<Rightarrow> error + byte list" where
  "speed_row dbl x now speed_per_second =
     (case speed_per_second of
        None \<Rightarrow> Inl TypeError
      | Some v \<Rightarrow> bind_err (pack_B 1) (\<lambda>b. Inr (b @ pack_d (dbl x) @ pack_d (dbl now) @ pack_d (dbl v))))"

text \<open>
  Lines 230 to 250 of \<^verbatim>\<open>step\<close>: the sample is appended, the window pruned, the rate
  and \<^verbatim>\<open>eta\<close> updated, \<^verbatim>\<open>last_batch_time\<close> set and \<^verbatim>\<open>secondsPerIteration\<close> patched.
\<close>

definition step_record :: "int option \<Rightarrow> real \<Rightarrow> context \<Rightarrow> context" where
  "step_record tot now s1 =
     (let s2 = (if last_batch_time s1 \<noteq> 0
                then s1\<lparr>seconds_per_iterations := seconds_per_iterations s1 @
                          [\<lparr>diff = (now - last_batch_time s1) * real_of_int (the tot),
                            when = now\<rparr>]\<rparr>
                else s1);
          s3 = s2\<lparr>seconds_per_iterations := remove_old now (seconds_per_iterations s2)\<rparr>;
          s4 = (if length (seconds_per_iterations s3) > 0
                then (let s3a = s3\<lparr>seconds_per_iteration := average (seconds_per_iterations s3)\<rparr>;
                          iterations_left = job_iterations s3a - job_iteration s3a
                      in patch ''eta''
                           (JNum (seconds_per_iteration s3a * real_of_int iterations_left)) s3a)
                else s3);
          s5 = s4\<lparr>last_batch_time := now\<rparr>
      in if seconds_per_iteration s5 \<noteq> 0
         then patch ''secondsPerIteration'' (JNum (seconds_per_iteration s5)) s5
         else s5)"

text \<open>
  Lines 252 to 258 of \<^verbatim>\<open>step\<close>: the \<^verbatim>\<open>speed\<close> patch, the speed row pushed to the
  subject, and the \<^verbatim>\<open>steps\<close> patch.
\<close>

definition step_report ::
  "(real \<Rightarrow> f64) \<Rightarrow> int option \<Rightarrow> real \<Rightarrow> real \<Rightarrow> real option \<Rightarrow> context
     \<Rightarrow> error option \<times> context" where
  "step_report dbl tot now x speed_per_second s6 =
     (let s7 = patch ''speed'' (case speed_per_second of None \<Rightarrow> JNone | Some v \<Rightarrow> JNum v) s6
      in case speed_row dbl x now speed_per_second of
           Inl e \<Rightarrow> (Some e, s7)
         | Inr speed \<Rightarrow>
             (let s8 = s7\<lparr>speed_report_subject := on_next speed (speed_report_subject s7)\<rparr>
              in (None, if truthy tot then patch ''steps'' (JInt (the tot)) s8 else s8)))"

text \<open>
  \<^verbatim>\<open>step\<close> returns the exception it raised, if any, and the context as the call left
  it. \<open>dbl\<close> maps a computed float to its binary64 pattern; which pattern an exact
  value rounds to is not modelled, and nothing below depends on it.
\<close>

definition step ::
  "(real \<Rightarrow> f64) \<Rightarrow> int \<Rightarrow> int option \<Rightarrow> int option \<Rightarrow> real \<Rightarrow> context
     \<Rightarrow> error option \<times> context" where
  "step dbl current tot sz now s0 =
     (let s1 = patch ''step'' (JInt current) s0 in
      case step_x (job_iteration s1) current tot of
        Inl e \<Rightarrow> (Some e, s1)
      | Inr x \<Rightarrow>
          (case step_speed sz now (last_batch_time s1) of
             Inl e \<Rightarrow> (Some e, s1)
           | Inr speed_per_second \<Rightarrow>
               step_report dbl tot now x speed_per_second (step_record tot now s1)))"

text \<open>
  A conversion for concrete runs: exact on integer values of magnitude below \<open>2^53\<close>;
  the fraction of any other value is dropped before the conversion.
\<close>

definition dbl_trunc :: "real \<Rightarrow> f64" where
  "dbl_trunc r = (case float_of_int (if 0 \<le> r then \<lfloor>r\<rfloor> else \<lceil>r\<rceil>) of Inr w \<Rightarrow> w | Inl e \<Rightarrow> 0)"

subsection \<open>Sequences of calls\<close>

datatype call =
    Iteration int "int option" real
  | Step int "int option" "int option" real

fun call_time :: "call \<Rightarrow> real" where
  "call_time (Iteration current tot now) = now"
| "call_time (Step current tot sz now) = now"

text \<open>One call; after a \<^verbatim>\<open>step\<close> that raised, the caller goes on with the context as it is.\<close>

fun do_call :: "(real \<Rightarrow> f64) \<Rightarrow> context \<Rightarrow> call \<Rightarrow> context" where
  "do_call dbl s (Iteration current tot now) = iteration current tot now s"
| "do_call dbl s (Step current tot sz now) = snd (step dbl current tot sz now s)"

definition run :: "(real \<Rightarrow> f64) \<Rightarrow> call list \<Rightarrow> context \<Rightarrow> context" where
  "run dbl calls s = foldl (do_call dbl) s calls"

text \<open>\<^verbatim>\<open>step\<close> raises at line 227 or 228, before the sample is recorded.\<close>

definition raises_early :: "int \<Rightarrow> int option \<Rightarrow> int option \<Rightarrow> real \<Rightarrow> context \<Rightarrow> bool" where
  "raises_early current tot sz now s =
     (isl (step_x (job_iteration s) current tot) \<or> isl (step_speed sz now (last_batch_time s)))"

text \<open>What a call appended to the recorded effects.\<close>

definition emitted :: "context \<Rightarrow> context \<Rightarrow> effect list" where
  "emitted s s' = drop (length (effects s)) (effects s')"

section \<open>\<^verbatim>\<open>Context.define_metric\<close> and \<^verbatim>\<open>Context.metric\<close>\<close>

definition define_metric :: "string \<Rightarrow> jval \<Rightarrow> context \<Rightarrow> context" where
  "define_metric name options s =
     job_action ''defineMetric'' [JStr name, options]
       (s\<lparr>defined_metrics := insert name (defined_metrics s)\<rparr>)"

fun jval_of :: "pyval \<Rightarrow> jval" where
  "jval_of PNone = JNone"
| "jval_of (PInt n) = JInt n"
| "jval_of (PFloat w) = JFloat w"

text \<open>
  \<^verbatim>\<open>metric\<close> returns the exception it raised, if any, and the context as the call left
  it; \<open>now\<close> is the binary64 \<^verbatim>\<open>time.time()\<close> returned.
\<close>

definition metric ::
  "string \<Rightarrow> pyval \<Rightarrow> yarg \<Rightarrow> f64 \<Rightarrow> context \<Rightarrow> error option \<times> context" where
  "metric name x y now s0 =
     (let s1 = (if name \<notin> defined_metrics s0 then define_metric name (JDict []) s0 else s0);
          y1 = as_list y
      in case metric_row x y1 now of
           Inl e \<Rightarrow> (Some e, s1)
         | Inr row_binary \<Rightarrow>
             (let s2 = s1\<lparr>metric_subject := on_next (name, row_binary) (metric_subject s1)\<rparr>
              in (None, patch (''channels.'' @ name @ ''.lastValue'') (JList (map jval_of y1)) s2)))"

section \<open>The hardware row (\<^verbatim>\<open>on_hardware_metrics\<close>)\<close>

text \<open>
  What one tick reads from \<^verbatim>\<open>time\<close> and \<^verbatim>\<open>psutil\<close>. The two percentages are the
  values of the floats read.
\<close>

record hardware_sample =
  hw_time :: f64
  cpu_percent :: real
  cpu_count :: "int option"
  memory_percent :: real
  bytes_recv :: int
  bytes_sent :: int
  write_bytes :: int
  read_bytes :: int

subsection \<open>Binary64 arithmetic\<close>

text \<open>
  The operations \<^verbatim>\<open>/\<close> and \<^verbatim>\<open>*\<close> on floats give the exact result rounded to the
  nearest binary64, ties to even. \<open>binary64 x\<close> is that rounding of a real \<open>x\<close>: 53
  significant bits, and multiples of \<open>2^-1074\<close> below the smallest normal number. A
  result of magnitude \<open>2^1024\<close> or more stands for an overflow (\<^verbatim>\<open>inf\<close>).
\<close>

definition pow2 :: "int \<Rightarrow> real" where
  "pow2 k = (if 0 \<le> k then 2 ^ nat k else 1 / 2 ^ nat (- k))"

text \<open>For \<open>x > 0\<close>, the exponent \<open>e\<close> with \<open>2^e \<le> x < 2^(e+1)\<close>.\<close>

definition binade :: "real \<Rightarrow> int" where
  "binade x =
     (if 1 \<le> x then bitlen \<lfloor>x\<rfloor> - 1
      else (let j = bitlen \<lfloor>1 / x\<rfloor> - 1 in if pow2 (- j) \<le> x then - j else - j - 1))"

definition round_half_even :: "real \<Rightarrow> int" where
  "round_half_even m =
     (let f = \<lfloor>m\<rfloor>; r = m - of_int f in
      if r < 1 / 2 then f else if 1 / 2 < r then f + 1 else if even f then f else f + 1)"

definition binary64 :: "real \<Rightarrow> real" where
  "binary64 x =
     (if x = 0 then 0
      else (let a = \<bar>x\<bar>; q = max (binade a - 52) (- 1074);
                n = round_half_even (a / pow2 q)
            in sgn x * of_int n * pow2 q))"

subsection \<open>The two utilisation fields\<close>

text \<open>\<^verbatim>\<open>int(r)\<close> for a float: truncation towards zero.\<close>

definition py_int :: "real \<Rightarrow> int" where
  "py_int r = (if 0 \<le> r then \<lfloor>r\<rfloor> else \<lceil>r\<rceil>)"

text \<open>
  \<^verbatim>\<open>(p.cpu_percent(interval=None) / 100) / psutil.cpu_count()\<close> and
  \<^verbatim>\<open>p.memory_percent() / 100\<close>, for percentages that are finite floats; the int
  \<^verbatim>\<open>cpu_count\<close> is converted to a float for the division.
\<close>

definition cpu_fraction :: "real \<Rightarrow> int \<Rightarrow> real" where
  "cpu_fraction percent c = binary64 (binary64 (percent / 100) / binary64 (real_of_int c))"

definition mem_fraction :: "real \<Rightarrow> real" where
  "mem_fraction percent = binary64 (percent / 100)"

text \<open>
  \<^verbatim>\<open>int(fraction * 65535)\<close>: the product is rounded to binary64, then truncated; the
  \<^verbatim>\<open>int\<close> of an overflowed product is an \<^verbatim>\<open>OverflowError\<close>.
\<close>

definition scale_field :: "real \<Rightarrow> error + int" where
  "scale_field fraction =
     (let product = binary64 (fraction * 65535) in
      if 2 ^ 1024 \<le> \<bar>product\<bar> then Inl OverflowError else Inr (py_int product))"

text \<open>
  \<^verbatim>\<open>int(((p.cpu_percent(interval=None) / 100) / psutil.cpu_count()) * 65535)\<close>:
  \<^verbatim>\<open>TypeError\<close> when \<^verbatim>\<open>cpu_count()\<close> is \<^verbatim>\<open>None\<close>, \<^verbatim>\<open>OverflowError\<close> when it is too
  large for a float, \<^verbatim>\<open>ZeroDivisionError\<close> when it is 0.
\<close>

definition cpu_field :: "real \<Rightarrow> int option \<Rightarrow> error + int" where
  "cpu_field percent n =
     (case n of
        None \<Rightarrow> Inl TypeError
      | Some c \<Rightarrow> if 2 ^ 1024 \<le> \<bar>binary64 (real_of_int c)\<bar> then Inl OverflowError
                  else if c = 0 then Inl ZeroDivisionError
                  else scale_field (cpu_fraction percent c))"

text \<open>\<^verbatim>\<open>int((p.memory_percent() / 100) * 65535)\<close>\<close>

definition mem_field :: "real \<Rightarrow> error + int" where
  "mem_field percent = scale_field (mem_fraction percent)"

text \<open>
  \<^verbatim>\<open>struct.pack('<BHdHHffff', 1, 0, time.time(), ...)\<close>. The arguments are evaluated
  first (the two \<^verbatim>\<open>int(...)\<close> and the four \<^verbatim>\<open>float(...)\<close> can raise), then the fields
  are packed in order.
\<close>

definition hardware_row :: "hardware_sample \<Rightarrow> error + byte list" where
  "hardware_row h =
     bind_err (cpu_field (cpu_percent h) (cpu_count h)) (\<lambda>cpu.
     bind_err (mem_field (memory_percent h)) (\<lambda>mem.
     bind_err (float_of_int (bytes_recv h)) (\<lambda>_.
     bind_err (float_of_int (bytes_sent h)) (\<lambda>_.
     bind_err (float_of_int (write_bytes h)) (\<lambda>_.
     bind_err (float_of_int (read_bytes h)) (\<lambda>_.
     bind_err (pack_B 1) (\<lambda>b0.
     bind_err (pack_H 0) (\<lambda>b1.
     bind_err (pack_H cpu) (\<lambda>b3.
     bind_err (pack_H mem) (\<lambda>b4.
     bind_err (pack_f_int (bytes_recv h)) (\<lambda>b5.
     bind_err (pack_f_int (bytes_sent h)) (\<lambda>b6.
     bind_err (pack_f_int (write_bytes h)) (\<lambda>b7.
     bind_err (pack_f_int (read_bytes h)) (\<lambda>b8.
     Inr (b0 @ b1 @ pack_d (hw_time h) @ b3 @ b4 @ b5 @ b6 @ b7 @ b8)))))))))))))))"

definition on_hardware_metrics :: "hardware_sample \<Rightarrow> context \<Rightarrow> error option \<times> context" where
  "on_hardware_metrics h s =
     (case hardware_row h of
        Inl e \<Rightarrow> (Some e, s)
      | Inr data \<Rightarrow>
          (None, job_action ''streamFile''
                   [JStr ''.deepkit/hardware/main_0.hardware'', JStr (b64encode data)] s))"

subsection \<open>Reading a hardware row back by the documented layout\<close>

record hardware_fields =
  hf_version :: nat
  hf_reserved :: nat
  hf_timestamp :: f64
  hf_cpu :: nat
  hf_mem :: nat
  hf_net_recv :: f32
  hf_net_sent :: f32
  hf_disk_written :: f32
  hf_disk_read :: f32

text \<open>
  version (1 byte), reserved (2), timestamp (8, float), cpu (2), memory (2), then
  network received, network sent, disk written, disk read (4 each, float): 31 bytes.
\<close>

definition spec_decode_hardware_row :: "byte list \<Rightarrow> hardware_fields option" where
  "spec_decode_hardware_row bs =
     (if length bs \<noteq> 31 then None
      else Some \<lparr> hf_version = unat (hd bs),
                  hf_reserved = unat (from_le (take 2 (drop 1 bs)) :: 16 word),
                  hf_timestamp = from_le (take 8 (drop 3 bs)),
                  hf_cpu = unat (from_le (take 2 (drop 11 bs)) :: 16 word),
                  hf_mem = unat (from_le (take 2 (drop 13 bs)) :: 16 word),
                  hf_net_recv = from_le (take 4 (drop 15 bs)),
                  hf_net_sent = from_le (take 4 (drop 19 bs)),
                  hf_disk_written = from_le (take 4 (drop 23 bs)),
                  hf_disk_read = from_le (take 4 (drop 27 bs)) \<rparr>)"

text \<open>The scaling the specification states: \<open>round(fraction * 65535)\<close>.\<close>

definition spec_scale :: "real \<Rightarrow> int" where
  "spec_scale fraction = round (fraction * 65535)"

section \<open>\<^verbatim>\<open>Context.log\<close> and everything that can happen to a context\<close>

definition log :: "string \<Rightarrow> context \<Rightarrow> context" where
  "log str s = s\<lparr>log_subject := on_next str (log_subject s)\<rparr>"

text \<open>
  The calls of the application and the ticks of the four timers. An exception of a call
  leaves the context as the call left it.
\<close>

datatype operation =
    Progress call
  | Metric string pyval yarg f64
  | DefineMetric string jval
  | Log string
  | Shutdown
  | MetricTick
  | SpeedTick
  | LogTick
  | HardwareTick hardware_sample

fun perform :: "(real \<Rightarrow> f64) \<Rightarrow> context \<Rightarrow> operation \<Rightarrow> context" where
  "perform dbl s (Progress c) = do_call dbl s c"
| "perform dbl s (Metric name x y now) = snd (metric name x y now s)"
| "perform dbl s (DefineMetric name options) = define_metric name options s"
| "perform dbl s (Log str) = log str s"
| "perform dbl s Shutdown = shutdown s"
| "perform dbl s MetricTick = metric_tick s"
| "perform dbl s SpeedTick = speed_tick s"
| "perform dbl s LogTick = log_tick s"
| "perform dbl s (HardwareTick h) = snd (on_hardware_metrics h s)"

section \<open>Grouping by channel, as the specification words it\<close>

text \<open>The keys of a list in order of first appearance.\<close>

fun first_seen :: "'a list \<Rightarrow> 'a list" where
  "first_seen [] = []"
| "first_seen (k # ks) = k # filter (\<lambda>j. j \<noteq> k) (first_seen ks)"

text \<open>The rows pushed for channel \<open>i\<close>, concatenated in arrival order.\<close>

definition rows_of :: "string \<Rightarrow> (string \<times> byte list) list \<Rightarrow> byte list" where
  "rows_of i data = concat (map snd (filter (\<lambda>d. fst d = i) data))"

definition channel_data :: "(string \<times> byte list) list \<Rightarrow> string \<Rightarrow> effect" where
  "channel_data data i = JobAction ''channelData'' [JStr i, JStr (b64encode (rows_of i data))]"

fun is_define_metric :: "effect \<Rightarrow> bool" where
  "is_define_metric (JobAction n args) = (n = ''defineMetric'')"
| "is_define_metric e = False"

fun is_channel_data_for :: "string \<Rightarrow> effect \<Rightarrow> bool" where
  "is_channel_data_for name (JobAction n (JStr i # args)) = (n = ''channelData'' \<and> i = name)"
| "is_channel_data_for name e = False"

section \<open>Properties\<close>

subsection \<open>Grouping rows by channel\<close>

lemma effects_patch [simp]: "effects (patch k v s) = effects s @ [Patch k v]"
  by (simp add: patch_def)

lemma effects_job_action [simp]: "effects (job_action n a s) = effects s @ [JobAction n a]"
  by (simp add: job_action_def)

lemma update_fresh: "k \<notin> fst ` set al \<Longrightarrow> AList.update k v al = al @ [(k, v)]"
  by (induction al) auto

lemma map_absent:
  "k \<notin> fst ` set al \<Longrightarrow> map (\<lambda>p. if fst p = k then f p else p) al = al"
  by (induction al) auto

lemma update_present:
  "distinct (map fst al) \<Longrightarrow> k \<in> fst ` set al \<Longrightarrow>
   AList.update k v al = map (\<lambda>p. if fst p = k then (k, v) else p) al"
proof (induction al)
  case Nil
  then show ?case by simp
next
  case (Cons a al)
  show ?case
  proof (cases "fst a = k")
    case True
    then have "k \<notin> fst ` set al" using Cons.prems(1) by auto
    then show ?thesis using True by (simp add: map_absent)
  next
    case False
    then show ?thesis using Cons by auto
  qed
qed

lemma update_last:
  "k \<notin> fst ` set al \<Longrightarrow> AList.update k v (al @ [(k, w)]) = al @ [(k, v)]"
  by (induction al) auto

lemma map_of_last:
  "k \<notin> fst ` set al \<Longrightarrow> map_of (al @ [(k, w)]) k = Some w"
  by (induction al) auto

lemma map_of_present:
  "k \<in> fst ` set al \<Longrightarrow> \<exists>v. map_of al k = Some v"
  by (induction al) auto

lemma pack_item_fresh:
  "fst d \<notin> fst ` set packed \<Longrightarrow> pack_item packed d = packed @ [d]"
  by (cases d) (simp add: pack_item_def update_fresh map_of_last update_last del: map_of_append)

lemma pack_item_present:
  assumes "distinct (map fst packed)" "fst d \<in> fst ` set packed"
  shows "pack_item packed d =
           map (\<lambda>p. if fst p = fst d then (fst p, snd p @ snd d) else p) packed"
proof -
  obtain v where v: "map_of packed (fst d) = Some v"
    using map_of_present [OF assms(2)] by blast
  have "pack_item packed d = AList.update (fst d) (v @ snd d) packed"
    using assms(2) v by (simp add: pack_item_def)
  also have "\<dots> = map (\<lambda>p. if fst p = fst d then (fst d, v @ snd d) else p) packed"
    by (rule update_present [OF assms])
  also have "\<dots> = map (\<lambda>p. if fst p = fst d then (fst p, snd p @ snd d) else p) packed"
  proof (rule map_cong [OF refl])
    fix p assume p: "p \<in> set packed"
    show "(if fst p = fst d then (fst d, v @ snd d) else p) =
          (if fst p = fst d then (fst p, snd p @ snd d) else p)"
    proof (cases "fst p = fst d")
      case True
      have "map_of packed (fst p) = Some (snd p)"
        using assms(1) p by (metis map_of_is_SomeI prod.collapse)
      with True v show ?thesis by simp
    qed simp
  qed
  finally show ?thesis .
qed

lemma rows_of_Cons:
  "rows_of i (d # ds) = (if fst d = i then snd d @ rows_of i ds else rows_of i ds)"
  by (simp add: rows_of_def)

lemma rows_of_Nil [simp]: "rows_of i [] = []"
  by (simp add: rows_of_def)

lemma set_first_seen [simp]: "set (first_seen ks) = set ks"
  by (induction ks) auto

lemma distinct_first_seen [simp]: "distinct (first_seen ks)"
  by (induction ks) auto

lemma foldl_pack_item:
  "distinct (map fst packed) \<Longrightarrow>
   foldl pack_item packed data =
     map (\<lambda>p. (fst p, snd p @ rows_of (fst p) data)) packed @
     map (\<lambda>j. (j, rows_of j data))
       (filter (\<lambda>j. j \<notin> fst ` set packed) (first_seen (map fst data)))"
proof (induction data arbitrary: packed)
  case Nil
  then show ?case by simp
next
  case (Cons d ds)
  let ?fs = "first_seen (map fst ds)"
  show ?case
  proof (cases "fst d \<in> fst ` set packed")
    case True
    let ?p = "map (\<lambda>p. if fst p = fst d then (fst p, snd p @ snd d) else p) packed"
    have keys: "map fst ?p = map fst packed" by (induction packed) auto
    then have keys': "fst ` set ?p = fst ` set packed"
      by (metis list.set_map)
    have dist: "distinct (map fst ?p)" unfolding keys by (rule Cons.prems)
    have filt: "filter (\<lambda>j. j \<notin> fst ` set packed) (filter (\<lambda>j. j \<noteq> fst d) ?fs)
              = filter (\<lambda>j. j \<notin> fst ` set packed) ?fs"
      using True by (auto intro: filter_cong)
    have ih: "foldl pack_item ?p ds =
        map (\<lambda>p. (fst p, snd p @ rows_of (fst p) ds)) ?p @
        map (\<lambda>j. (j, rows_of j ds)) (filter (\<lambda>j. j \<notin> fst ` set packed) ?fs)"
      using Cons.IH [OF dist] unfolding keys' .
    have a: "map (\<lambda>p. (fst p, snd p @ rows_of (fst p) ds)) ?p =
             map (\<lambda>p. (fst p, snd p @ rows_of (fst p) (d # ds))) packed"
      by (auto simp: rows_of_Cons)
    have b: "map (\<lambda>j. (j, rows_of j ds)) (filter (\<lambda>j. j \<notin> fst ` set packed) ?fs) =
             map (\<lambda>j. (j, rows_of j (d # ds)))
               (filter (\<lambda>j. j \<notin> fst ` set packed) (first_seen (map fst (d # ds))))"
    proof -
      have e1: "filter (\<lambda>j. j \<notin> fst ` set packed) (first_seen (map fst (d # ds))) =
            filter (\<lambda>j. j \<notin> fst ` set packed) ?fs"
        using True by (auto intro!: filter_cong)
      have e2: "rows_of j ds = rows_of j (d # ds)"
        if "j \<in> set (filter (\<lambda>j. j \<notin> fst ` set packed) ?fs)" for j
      proof -
        from that have "j \<notin> fst ` set packed" by simp
        with True have "fst d \<noteq> j" by blast
        then show ?thesis by (simp add: rows_of_Cons)
      qed
      show ?thesis
        unfolding e1 by (rule map_cong [OF refl]) (simp only: e2)
    qed
    have "foldl pack_item packed (d # ds) = foldl pack_item ?p ds"
      by (simp add: pack_item_present [OF Cons.prems True])
    then show ?thesis by (simp only: ih a b)
  next
    case False
    have dist: "distinct (map fst (packed @ [d]))" using Cons.prems False by auto
    have keys': "fst ` set (packed @ [d]) = insert (fst d) (fst ` set packed)" by simp
    have ih: "foldl pack_item (packed @ [d]) ds =
        map (\<lambda>p. (fst p, snd p @ rows_of (fst p) ds)) (packed @ [d]) @
        map (\<lambda>j. (j, rows_of j ds))
          (filter (\<lambda>j. j \<notin> insert (fst d) (fst ` set packed)) ?fs)"
      using Cons.IH [OF dist] unfolding keys' .
    have a: "map (\<lambda>p. (fst p, snd p @ rows_of (fst p) ds)) packed =
             map (\<lambda>p. (fst p, snd p @ rows_of (fst p) (d # ds))) packed"
      using False by (auto simp: rows_of_Cons)
    have b: "map (\<lambda>j. (j, rows_of j ds))
               (filter (\<lambda>j. j \<notin> insert (fst d) (fst ` set packed)) ?fs) =
             map (\<lambda>j. (j, rows_of j (d # ds)))
               (filter (\<lambda>j. j \<notin> fst ` set packed) (filter (\<lambda>j. j \<noteq> fst d) ?fs))"
      by (auto simp: rows_of_Cons intro!: map_cong filter_cong)
    have "foldl pack_item packed (d # ds) = foldl pack_item (packed @ [d]) ds"
      by (simp add: pack_item_fresh [OF False])
    then show ?thesis
      using False by (simp add: ih a b rows_of_Cons)
  qed
qed

lemma fold_job_action:
  "fold (\<lambda>(i, v). job_action n (f i v)) packed s =
     s\<lparr>effects := effects s @ map (\<lambda>(i, v). JobAction n (f i v)) packed\<rparr>"
  by (induction packed arbitrary: s) (auto simp: job_action_def)

lemma on_metric_eq:
  "on_metric data s =
     s\<lparr>effects := effects s @ map (channel_data data) (first_seen (map fst data))\<rparr>"
proof (cases data)
  case Nil
  then show ?thesis by (simp add: on_metric_def)
next
  case (Cons d ds)
  have "foldl pack_item [] data = map (\<lambda>j. (j, rows_of j data)) (first_seen (map fst data))"
    using foldl_pack_item [of "[]" data] by simp
  then show ?thesis
    using Cons
    by (simp add: on_metric_def fold_job_action [where f = "\<lambda>i v. [JStr i, JStr (b64encode v)]"]
        channel_data_def comp_def del: first_seen.simps foldl.simps)
qed

subsection \<open>The flush of the metrics window\<close>

text \<open>
  Claim C3. When the timer of the metrics subject ticks, the flush sends, after what was
  sent before, exactly one \<^verbatim>\<open>channelData\<close> call per channel of the window, the channels
  in order of first appearance and each with the base64 text of its rows concatenated in
  arrival order; no channel occurs twice, every pushed channel occurs, a window without
  pushes sends nothing, and the buffer is empty afterwards.
\<close>

theorem metric_flush_groups_by_channel:
  assumes "\<not> is_stopped (metric_subject s)"
    and "pending (metric_subject s) = data"
  shows "effects (metric_tick s) =
           effects s @ map (channel_data data) (first_seen (map fst data))
       \<and> distinct (first_seen (map fst data))
       \<and> set (first_seen (map fst data)) = fst ` set data
       \<and> (data = [] \<longrightarrow> effects (metric_tick s) = effects s)
       \<and> pending (metric_subject (metric_tick s)) = []"
  using assms by (auto simp add: metric_tick_def on_metric_eq)

text \<open>
  The window of the specification: rows \<open>a\<close>, \<open>b\<close> for channel \<open>x\<close> and \<open>c\<close> for
  channel \<open>y\<close> give \<open>x\<close> with \<open>ab\<close> (base64 \<open>YWI=\<close>) and \<open>y\<close> with \<open>c\<close>
  (base64 \<open>Yw==\<close>).
\<close>

theorem metric_flush_groups_by_channel_witness:
  "effects (metric_tick ((new_context [])\<lparr>metric_subject :=
      \<lparr>pending = [(''x'', [0x61]), (''x'', [0x62]), (''y'', [0x63])], is_stopped = False\<rparr>\<rparr>))
   = [JobAction ''channelData'' [JStr ''x'', JStr ''YWI=''],
      JobAction ''channelData'' [JStr ''y'', JStr ''Yw=='']]"
  using metric_flush_groups_by_channel
    [of "(new_context [])\<lparr>metric_subject :=
      \<lparr>pending = [(''x'', [0x61]), (''x'', [0x62]), (''y'', [0x63])], is_stopped = False\<rparr>\<rparr>"
      "[(''x'', [0x61]), (''x'', [0x62]), (''y'', [0x63])]"]
  by (simp add: new_context_def channel_data_def rows_of_def b64_char_def b64_alphabet_def)

subsection \<open>The flush of the speed window\<close>

text \<open>
  Claim C8. When the timer of the speed subject ticks, a window with at least one pushed
  row sends exactly one \<^verbatim>\<open>streamFile\<close> call, carrying the last row pushed and none of the
  earlier ones; a window without pushes sends nothing. The buffer is empty afterwards.
\<close>

theorem speed_flush_keeps_last:
  assumes "\<not> is_stopped (speed_report_subject s)"
    and "pending (speed_report_subject s) = rows"
  shows "effects (speed_tick s) =
           effects s @ (if rows = [] then []
                        else [JobAction ''streamFile''
                               [JStr ''.deepkit/speed.metric'', JStr (b64encode (last rows))]])
       \<and> pending (speed_report_subject (speed_tick s)) = []"
  using assms by (simp add: speed_tick_def on_speed_report_def job_action_def)

theorem speed_flush_keeps_last_witness:
  "effects (speed_tick ((new_context [])\<lparr>speed_report_subject :=
      \<lparr>pending = [[0x61, 0x62], [0x63]], is_stopped = False\<rparr>\<rparr>))
   = [JobAction ''streamFile'' [JStr ''.deepkit/speed.metric'', JStr ''Yw=='']]"
  using speed_flush_keeps_last
    [of "(new_context [])\<lparr>speed_report_subject :=
      \<lparr>pending = [[0x61, 0x62], [0x63]], is_stopped = False\<rparr>\<rparr>" "[[0x61, 0x62], [0x63]]"]
  by (simp add: new_context_def b64_char_def b64_alphabet_def)

subsection \<open>\<^verbatim>\<open>step\<close> with a total of zero\<close>

text \<open>
  Claim C9. \<^verbatim>\<open>step\<close> called with \<^verbatim>\<open>total=0\<close> raises \<^verbatim>\<open>ZeroDivisionError\<close> at the
  division \<^verbatim>\<open>current / total\<close>. The \<^verbatim>\<open>step\<close> patch, sent before the division, is
  the only thing the call has done: no further patch, no speed row, no change to any
  other field.
\<close>

theorem step_total_zero_fails_fast:
  "step dbl current (Some 0) sz now s =
     (Some ZeroDivisionError, s\<lparr>effects := effects s @ [Patch ''step'' (JInt current)]\<rparr>)"
  by (simp add: step_def step_x_def patch_def)

subsection \<open>The fields after \<^verbatim>\<open>iteration\<close> and \<^verbatim>\<open>step\<close>\<close>

lemma patch_fields:
  "seconds_per_iterations (patch k v s) = seconds_per_iterations s"
  "seconds_per_iteration (patch k v s) = seconds_per_iteration s"
  "last_batch_time (patch k v s) = last_batch_time s"
  "last_iteration_time (patch k v s) = last_iteration_time s"
  "job_iteration (patch k v s) = job_iteration s"
  "job_iterations (patch k v s) = job_iterations s"
  "effects (patch k v s) = effects s @ [Patch k v]"
  by (simp_all add: patch_def)

lemma iteration_record_fields:
  "seconds_per_iterations (iteration_record current tot now s) =
     remove_old now (seconds_per_iterations s @
       (if last_iteration_time s \<noteq> 0
        then [\<lparr>diff = now - last_iteration_time s, when = now\<rparr>] else []))"
  "last_batch_time (iteration_record current tot now s) = now"
  "last_iteration_time (iteration_record current tot now s) = now"
  "job_iteration (iteration_record current tot now s) = current"
  "job_iterations (iteration_record current tot now s) =
     (if truthy tot then the tot else job_iterations s)"
  "effects (iteration_record current tot now s) = effects s"
  by (simp_all add: iteration_record_def Let_def)

lemma iteration_record_rate:
  "seconds_per_iteration (iteration_record current tot now s) =
     (if seconds_per_iterations (iteration_record current tot now s) \<noteq> []
      then average (seconds_per_iterations (iteration_record current tot now s))
      else seconds_per_iteration s)"
  by (simp add: iteration_record_def Let_def)

lemma iteration_report_fields:
  "seconds_per_iterations (iteration_report tot s) = seconds_per_iterations s"
  "seconds_per_iteration (iteration_report tot s) = seconds_per_iteration s"
  "last_batch_time (iteration_report tot s) = last_batch_time s"
  "last_iteration_time (iteration_report tot s) = last_iteration_time s"
  "job_iteration (iteration_report tot s) = job_iteration s"
  "job_iterations (iteration_report tot s) = job_iterations s"
  by (simp_all add: iteration_report_def Let_def patch_fields)

lemma iteration_report_effects:
  "effects (iteration_report tot s) =
     effects s
     @ (if seconds_per_iteration s \<noteq> 0
        then [Patch ''secondsPerIteration'' (JNum (seconds_per_iteration s))] else [])
     @ [Patch ''iteration'' (JInt (job_iteration s))]
     @ (if truthy tot then [Patch ''iterations'' (JInt (job_iterations s))] else [])
     @ [if job_iterations s - job_iteration s > 0
        then Patch ''eta'' (JNum (seconds_per_iteration s
               * real_of_int (job_iterations s - job_iteration s)))
        else Patch ''eta'' (JInt 0)]"
  by (simp add: iteration_report_def Let_def patch_fields)

lemma iteration_fields:
  "seconds_per_iterations (iteration current tot now s) =
     remove_old now (seconds_per_iterations s @
       (if last_iteration_time s \<noteq> 0
        then [\<lparr>diff = now - last_iteration_time s, when = now\<rparr>] else []))"
  "last_batch_time (iteration current tot now s) = now"
  "last_iteration_time (iteration current tot now s) = now"
  "job_iteration (iteration current tot now s) = current"
  "job_iterations (iteration current tot now s) =
     (if truthy tot then the tot else job_iterations s)"
  by (simp_all add: iteration_def iteration_report_fields iteration_record_fields)

lemma iteration_rate:
  "seconds_per_iteration (iteration current tot now s) =
     (if seconds_per_iterations (iteration current tot now s) \<noteq> []
      then average (seconds_per_iterations (iteration current tot now s))
      else seconds_per_iteration s)"
  unfolding iteration_def iteration_report_fields by (rule iteration_record_rate)

lemma step_record_window:
  "seconds_per_iterations (step_record tot now s) =
     remove_old now (seconds_per_iterations s @
       (if last_batch_time s \<noteq> 0
        then [\<lparr>diff = (now - last_batch_time s) * real_of_int (the tot), when = now\<rparr>]
        else []))"
  by (simp add: step_record_def Let_def patch_def)

lemma step_record_rate:
  "seconds_per_iteration (step_record tot now s) =
     (if seconds_per_iterations (step_record tot now s) \<noteq> []
      then average (seconds_per_iterations (step_record tot now s))
      else seconds_per_iteration s)"
  by (simp add: step_record_def Let_def patch_def)

lemma step_record_last_batch_time: "last_batch_time (step_record tot now s) = now"
  by (simp add: step_record_def Let_def patch_def)

lemma step_report_fields:
  "seconds_per_iterations (snd (step_report dbl tot now x sp s)) = seconds_per_iterations s"
  "seconds_per_iteration (snd (step_report dbl tot now x sp s)) = seconds_per_iteration s"
  "last_batch_time (snd (step_report dbl tot now x sp s)) = last_batch_time s"
  by (simp_all add: step_report_def Let_def patch_def split: sum.split)

lemma step_early:
  assumes "raises_early current tot sz now s"
  shows "snd (step dbl current tot sz now s) = patch ''step'' (JInt current) s"
proof (cases "step_x (job_iteration s) current tot")
  case (Inl e)
  then show ?thesis by (simp add: step_def patch_fields)
next
  case (Inr x)
  then obtain e where "step_speed sz now (last_batch_time s) = Inl e"
    using assms by (cases "step_speed sz now (last_batch_time s)") (auto simp: raises_early_def)
  with Inr show ?thesis by (simp add: step_def patch_fields)
qed

lemma step_late:
  assumes "\<not> raises_early current tot sz now s"
  shows "\<exists>x sp. snd (step dbl current tot sz now s) =
           snd (step_report dbl tot now x sp (step_record tot now (patch ''step'' (JInt current) s)))"
proof -
  obtain x where x: "step_x (job_iteration s) current tot = Inr x"
    using assms by (cases "step_x (job_iteration s) current tot") (auto simp: raises_early_def)
  obtain sp where sp: "step_speed sz now (last_batch_time s) = Inr sp"
    using assms by (cases "step_speed sz now (last_batch_time s)") (auto simp: raises_early_def)
  show ?thesis using x sp by (auto simp add: step_def patch_fields)
qed

lemma step_window:
  "seconds_per_iterations (snd (step dbl current tot sz now s)) =
     (if raises_early current tot sz now s then seconds_per_iterations s
      else remove_old now (seconds_per_iterations s @
       (if last_batch_time s \<noteq> 0
        then [\<lparr>diff = (now - last_batch_time s) * real_of_int (the tot), when = now\<rparr>]
        else [])))"
proof (cases "raises_early current tot sz now s")
  case True
  then show ?thesis by (simp add: step_early patch_fields)
next
  case False
  from step_late [OF False, of dbl] obtain x sp where
    "snd (step dbl current tot sz now s) =
       snd (step_report dbl tot now x sp (step_record tot now (patch ''step'' (JInt current) s)))"
    by blast
  then show ?thesis using False
    by (simp add: step_report_fields step_record_window patch_fields)
qed

lemma step_rate:
  "seconds_per_iteration (snd (step dbl current tot sz now s)) =
     (if \<not> raises_early current tot sz now s
         \<and> seconds_per_iterations (snd (step dbl current tot sz now s)) \<noteq> []
      then average (seconds_per_iterations (snd (step dbl current tot sz now s)))
      else seconds_per_iteration s)"
proof (cases "raises_early current tot sz now s")
  case True
  then show ?thesis by (simp add: step_early patch_fields)
next
  case False
  from step_late [OF False, of dbl] obtain x sp where
    "snd (step dbl current tot sz now s) =
       snd (step_report dbl tot now x sp (step_record tot now (patch ''step'' (JInt current) s)))"
    by blast
  then show ?thesis using False
    by (simp add: step_report_fields step_record_rate step_record_window patch_fields)
qed

lemma step_last_batch_time:
  "last_batch_time (snd (step dbl current tot sz now s)) =
     (if raises_early current tot sz now s then last_batch_time s else now)"
proof (cases "raises_early current tot sz now s")
  case True
  then show ?thesis by (simp add: step_early patch_fields)
next
  case False
  from step_late [OF False, of dbl] obtain x sp where
    "snd (step dbl current tot sz now s) =
       snd (step_report dbl tot now x sp (step_record tot now (patch ''step'' (JInt current) s)))"
    by blast
  then show ?thesis using False
    by (simp add: step_report_fields step_record_last_batch_time)
qed

subsection \<open>Pruning\<close>

lemma length_remove_old: "length (remove_old now xs) \<le> 30"
  by (simp add: remove_old_def Let_def)

lemma set_remove_old: "set (remove_old now xs) \<subseteq> {x \<in> set xs. now - when x < 20}"
proof -
  have "set (remove_old now xs) \<subseteq> set (filter (\<lambda>x. now - when x < 20) xs)"
    unfolding remove_old_def Let_def by (rule set_drop_subset)
  then show ?thesis by auto
qed

lemma subseq_remove_old: "subseq (remove_old now xs) xs"
proof -
  have "subseq (remove_old now xs) (filter (\<lambda>x. now - when x < 20) xs)"
    unfolding remove_old_def Let_def by (rule suffix_imp_subseq) (rule suffix_drop)
  then show ?thesis
    by (rule subseq_order.trans) (rule subseq_filter_left)
qed

lemma sorted_remove_old:
  assumes "sorted (map when xs)"
  shows "sorted (map when (remove_old now xs))"
proof -
  have "sorted_wrt (\<lambda>a b. when a \<le> when b) xs"
    using assms by (simp add: sorted_map)
  then have "sorted_wrt (\<lambda>a b. when a \<le> when b) (remove_old now xs)"
    unfolding remove_old_def Let_def by (intro sorted_wrt_drop sorted_wrt_filter)
  then show ?thesis by (simp add: sorted_map)
qed

lemma run_snoc: "run dbl (cs @ [c]) s = do_call dbl (run dbl cs s) c"
  by (simp add: run_def)

text \<open>What one call does to the window, the rate and \<open>last_batch_time\<close>.\<close>

lemma do_call_cases:
  obtains (unchanged)
    "seconds_per_iterations (do_call dbl s c) = seconds_per_iterations s"
    "seconds_per_iteration (do_call dbl s c) = seconds_per_iteration s"
    "last_batch_time (do_call dbl s c) = last_batch_time s"
  | (recorded) app where
    "seconds_per_iterations (do_call dbl s c) =
       remove_old (call_time c) (seconds_per_iterations s @ app)"
    "\<forall>x \<in> set app. when x = call_time c"
    "seconds_per_iteration (do_call dbl s c) =
       (if seconds_per_iterations (do_call dbl s c) \<noteq> []
        then average (seconds_per_iterations (do_call dbl s c))
        else seconds_per_iteration s)"
    "last_batch_time (do_call dbl s c) = call_time c"
proof (cases c)
  case (Iteration current tot now)
  show ?thesis
  proof (rule recorded)
    show "seconds_per_iterations (do_call dbl s c) =
       remove_old (call_time c) (seconds_per_iterations s @
         (if last_iteration_time s \<noteq> 0
          then [\<lparr>diff = now - last_iteration_time s, when = now\<rparr>] else []))"
      using Iteration by (simp add: iteration_fields)
    show "\<forall>x \<in> set (if last_iteration_time s \<noteq> 0
          then [\<lparr>diff = now - last_iteration_time s, when = now\<rparr>] else []). when x = call_time c"
      using Iteration by simp
    show "seconds_per_iteration (do_call dbl s c) =
       (if seconds_per_iterations (do_call dbl s c) \<noteq> []
        then average (seconds_per_iterations (do_call dbl s c))
        else seconds_per_iteration s)"
      using Iteration iteration_rate [of current tot now s] by simp
    show "last_batch_time (do_call dbl s c) = call_time c"
      using Iteration by (simp add: iteration_fields)
  qed
next
  case (Step current tot sz now)
  show ?thesis
  proof (cases "raises_early current tot sz now s")
    case True
    show ?thesis
    proof (rule unchanged)
      show "seconds_per_iterations (do_call dbl s c) = seconds_per_iterations s"
        using Step True by (simp add: step_window)
      show "seconds_per_iteration (do_call dbl s c) = seconds_per_iteration s"
        using Step True step_rate [of dbl current tot sz now s] by simp
      show "last_batch_time (do_call dbl s c) = last_batch_time s"
        using Step True by (simp add: step_last_batch_time)
    qed
  next
    case False
    show ?thesis
    proof (rule recorded)
      show "seconds_per_iterations (do_call dbl s c) =
         remove_old (call_time c) (seconds_per_iterations s @
           (if last_batch_time s \<noteq> 0
            then [\<lparr>diff = (now - last_batch_time s) * real_of_int (the tot), when = now\<rparr>]
            else []))"
        using Step False by (simp add: step_window)
      show "\<forall>x \<in> set (if last_batch_time s \<noteq> 0
            then [\<lparr>diff = (now - last_batch_time s) * real_of_int (the tot), when = now\<rparr>]
            else []). when x = call_time c"
        using Step by simp
      show "seconds_per_iteration (do_call dbl s c) =
         (if seconds_per_iterations (do_call dbl s c) \<noteq> []
          then average (seconds_per_iterations (do_call dbl s c))
          else seconds_per_iteration s)"
        using Step False step_rate [of dbl current tot sz now s] by simp
      show "last_batch_time (do_call dbl s c) = call_time c"
        using Step False by (simp add: step_last_batch_time)
    qed
  qed
qed

lemma new_context_fields:
  "seconds_per_iterations (new_context logs) = []"
  "seconds_per_iteration (new_context logs) = 0"
  "last_batch_time (new_context logs) = 0"
  "last_iteration_time (new_context logs) = 0"
  "job_iteration (new_context logs) = 0"
  "job_iterations (new_context logs) = 0"
  "effects (new_context logs) = []"
  "defined_metrics (new_context logs) = {}"
  "shutting_down (new_context logs) = False"
  "metric_subject (new_context logs) = \<lparr>pending = [], is_stopped = False\<rparr>"
  "speed_report_subject (new_context logs) = \<lparr>pending = [], is_stopped = False\<rparr>"
  by (simp_all add: new_context_def)

lemma run_window_invariant:
  "length (seconds_per_iterations (run dbl calls (new_context logs))) \<le> 30
   \<and> (\<forall>x \<in> set (seconds_per_iterations (run dbl calls (new_context logs))).
         last_batch_time (run dbl calls (new_context logs)) - when x < 20
         \<and> when x \<in> call_time ` set calls)
   \<and> (sorted (map call_time calls) \<longrightarrow>
         sorted (map when (seconds_per_iterations (run dbl calls (new_context logs)))))
   \<and> (seconds_per_iterations (run dbl calls (new_context logs)) \<noteq> [] \<longrightarrow>
         seconds_per_iteration (run dbl calls (new_context logs)) =
           average (seconds_per_iterations (run dbl calls (new_context logs))))"
proof (induction calls rule: rev_induct)
  case Nil
  show ?case by (simp add: run_def new_context_fields)
next
  case (snoc c cs)
  let ?s = "run dbl cs (new_context logs)"
  let ?s' = "do_call dbl ?s c"
  note ih = snoc.IH
  have goal: "length (seconds_per_iterations ?s') \<le> 30
   \<and> (\<forall>x \<in> set (seconds_per_iterations ?s').
         last_batch_time ?s' - when x < 20 \<and> when x \<in> call_time ` set (cs @ [c]))
   \<and> (sorted (map call_time (cs @ [c])) \<longrightarrow> sorted (map when (seconds_per_iterations ?s')))
   \<and> (seconds_per_iterations ?s' \<noteq> [] \<longrightarrow>
         seconds_per_iteration ?s' = average (seconds_per_iterations ?s'))"
  proof (cases rule: do_call_cases [of dbl ?s c])
    case unchanged
    have "sorted (map call_time (cs @ [c])) \<Longrightarrow> sorted (map call_time cs)"
      by (simp add: sorted_append)
    with ih unchanged show ?thesis by auto
  next
    case (recorded app)
    let ?w = "seconds_per_iterations ?s"
    have sub: "set (seconds_per_iterations ?s') \<subseteq>
               {x \<in> set (?w @ app). call_time c - when x < 20}"
      unfolding recorded(1) by (rule set_remove_old)
    have 1: "length (seconds_per_iterations ?s') \<le> 30"
      unfolding recorded(1) by (rule length_remove_old)
    have 2: "\<forall>x \<in> set (seconds_per_iterations ?s').
         last_batch_time ?s' - when x < 20 \<and> when x \<in> call_time ` set (cs @ [c])"
    proof
      fix x assume "x \<in> set (seconds_per_iterations ?s')"
      with sub have x: "x \<in> set ?w \<or> x \<in> set app" "call_time c - when x < 20" by auto
      from x(1) have "when x \<in> call_time ` set (cs @ [c])"
        using ih recorded(2) by auto
      with x(2) recorded(4)
      show "last_batch_time ?s' - when x < 20 \<and> when x \<in> call_time ` set (cs @ [c])"
        by simp
    qed
    have 3: "sorted (map when (seconds_per_iterations ?s'))"
      if srt: "sorted (map call_time (cs @ [c]))"
    proof -
      from srt have a: "sorted (map call_time cs)" and b: "\<forall>t \<in> call_time ` set cs. t \<le> call_time c"
        by (auto simp: sorted_append)
      from a ih have "sorted (map when ?w)" by blast
      moreover have "\<forall>x \<in> set ?w. \<forall>y \<in> set app. when x \<le> when y"
        using ih b recorded(2) by auto
      moreover have "sorted (map when app)"
        using recorded(2) by (induction app) auto
      ultimately have "sorted (map when (?w @ app))"
        by (simp add: sorted_append)
      then show ?thesis unfolding recorded(1) by (rule sorted_remove_old)
    qed
    have 4: "seconds_per_iterations ?s' \<noteq> [] \<longrightarrow>
         seconds_per_iteration ?s' = average (seconds_per_iterations ?s')"
      using recorded(3) by simp
    from 1 2 3 4 show ?thesis by blast
  qed
  then show ?case unfolding run_snoc .
qed

lemma step_record_keeps:
  "job_iteration (step_record tot now s) = job_iteration s"
  "job_iterations (step_record tot now s) = job_iterations s"
  "last_iteration_time (step_record tot now s) = last_iteration_time s"
  by (simp_all add: step_record_def Let_def patch_fields)

lemma step_report_keeps:
  "job_iteration (snd (step_report dbl tot now x sp s)) = job_iteration s"
  "job_iterations (snd (step_report dbl tot now x sp s)) = job_iterations s"
  "last_iteration_time (snd (step_report dbl tot now x sp s)) = last_iteration_time s"
  by (simp_all add: step_report_def Let_def patch_def split: sum.split)

lemma step_keeps:
  "job_iteration (snd (step dbl current tot sz now s)) = job_iteration s
   \<and> job_iterations (snd (step dbl current tot sz now s)) = job_iterations s
   \<and> last_iteration_time (snd (step dbl current tot sz now s)) = last_iteration_time s"
proof (cases "raises_early current tot sz now s")
  case True
  then show ?thesis by (simp add: step_early patch_fields)
next
  case False
  from step_late [OF False, of dbl] obtain x sp where
    "snd (step dbl current tot sz now s) =
       snd (step_report dbl tot now x sp (step_record tot now (patch ''step'' (JInt current) s)))"
    by blast
  then show ?thesis
    by (simp add: step_report_keeps step_record_keeps patch_fields)
qed

lemmas run_eval = run_def do_call.simps iteration_fields iteration_rate step_window step_rate
  step_last_batch_time step_keeps new_context_fields raises_early_def step_x_def step_speed_def
  remove_old_def average_def truthy_def

subsection \<open>The rolling window\<close>

text \<open>
  Claim C1. After any sequence of \<^verbatim>\<open>iteration\<close> and \<^verbatim>\<open>step\<close> calls on a new context
  the window holds at most 30 samples; every sample satisfies \<open>now - when < 20\<close>, where
  \<open>now\<close> is the clock reading of the last call that recorded (it is kept in
  \<^verbatim>\<open>last_batch_time\<close>); the samples are in chronological order, oldest first, when the
  clock readings of the calls do not decrease; and the rate of a non-empty window is the
  arithmetic mean of its \<^verbatim>\<open>diff\<close> values. (The window is also always a subsequence of
  the samples in the order they were recorded, see \<open>subseq_remove_old\<close>.)
\<close>

theorem rolling_window_invariant:
  "length (seconds_per_iterations (run dbl calls (new_context logs))) \<le> 30
   \<and> (\<forall>x \<in> set (seconds_per_iterations (run dbl calls (new_context logs))).
         last_batch_time (run dbl calls (new_context logs)) - when x < 20)
   \<and> (sorted (map call_time calls) \<longrightarrow>
         sorted (map when (seconds_per_iterations (run dbl calls (new_context logs)))))
   \<and> (seconds_per_iterations (run dbl calls (new_context logs)) \<noteq> [] \<longrightarrow>
         seconds_per_iteration (run dbl calls (new_context logs)) =
           sum_list (map diff (seconds_per_iterations (run dbl calls (new_context logs))))
             / real (length (seconds_per_iterations (run dbl calls (new_context logs)))))"
  using run_window_invariant [of dbl calls logs] by (simp add: average_def)

lemma example_window:
  "seconds_per_iterations
     (run dbl_trunc [Iteration 5 (Some 10) 100, Step 1 (Some 2) (Some 64) 101,
                     Iteration 6 (Some 10) 102] (new_context []))
   = [\<lparr>diff = 2, when = 101\<rparr>, \<lparr>diff = 2, when = 102\<rparr>]"
  by (simp add: run_eval)

lemma example_last_batch_time:
  "last_batch_time
     (run dbl_trunc [Iteration 5 (Some 10) 100, Step 1 (Some 2) (Some 64) 101,
                     Iteration 6 (Some 10) 102] (new_context [])) = 102"
  by (simp add: run_eval)

theorem rolling_window_invariant_witness:
  "sorted (map call_time [Iteration 5 (Some 10) 100, Step 1 (Some 2) (Some 64) 101,
                          Iteration 6 (Some 10) 102])
   \<and> seconds_per_iterations
       (run dbl_trunc [Iteration 5 (Some 10) 100, Step 1 (Some 2) (Some 64) 101,
                       Iteration 6 (Some 10) 102] (new_context []))
     = [\<lparr>diff = 2, when = 101\<rparr>, \<lparr>diff = 2, when = 102\<rparr>]
   \<and> seconds_per_iteration
       (run dbl_trunc [Iteration 5 (Some 10) 100, Step 1 (Some 2) (Some 64) 101,
                       Iteration 6 (Some 10) 102] (new_context [])) = 2
   \<and> last_batch_time
       (run dbl_trunc [Iteration 5 (Some 10) 100, Step 1 (Some 2) (Some 64) 101,
                       Iteration 6 (Some 10) 102] (new_context [])) = 102"
  using rolling_window_invariant
    [of dbl_trunc "[Iteration 5 (Some 10) 100, Step 1 (Some 2) (Some 64) 101,
                    Iteration 6 (Some 10) 102]" "[]"]
  by (simp add: example_window example_last_batch_time)

subsection \<open>The rate when the window is empty\<close>

lemma stale_prefix_rate:
  "seconds_per_iteration
     (run dbl_trunc [Step 0 (Some 1) (Some 1) 1, Step 0 (Some 1) (Some 1) 2]
        (new_context [])) = 1"
  by (simp add: run_eval)

text \<open>
  Claim C7 says the rate is 0 whenever the window is empty. It is not: two \<^verbatim>\<open>step\<close>
  calls one second apart leave a window of one sample and the rate 1; the first
  \<^verbatim>\<open>iteration\<close> call, 28 seconds later, records no sample (\<^verbatim>\<open>last_iteration_time\<close> is
  still 0) and prunes the old one, so the window is empty and the rate is still 1.
\<close>

theorem rate_not_reset_counterexample:
  "seconds_per_iterations
     (run dbl_trunc [Step 0 (Some 1) (Some 1) 1, Step 0 (Some 1) (Some 1) 2,
                     Iteration 1 None 30] (new_context [])) = []
   \<and> seconds_per_iteration
     (run dbl_trunc [Step 0 (Some 1) (Some 1) 1, Step 0 (Some 1) (Some 1) 2,
                     Iteration 1 None 30] (new_context [])) = 1"
  by (simp add: run_eval)

text \<open>
  Claim C7, amended. After every call, the rate of a non-empty window is the mean of its
  \<^verbatim>\<open>diff\<close> values, and with an empty window the rate keeps the value it had before the
  call (the guard \<^verbatim>\<open>if len(self.seconds_per_iterations) > 0\<close>); it is 0 in a new
  context.
\<close>

theorem rate_is_mean_or_kept:
  "(seconds_per_iterations (do_call dbl (run dbl calls (new_context logs)) c) \<noteq> [] \<longrightarrow>
      seconds_per_iteration (do_call dbl (run dbl calls (new_context logs)) c) =
        sum_list (map diff (seconds_per_iterations (do_call dbl (run dbl calls (new_context logs)) c)))
          / real (length (seconds_per_iterations (do_call dbl (run dbl calls (new_context logs)) c))))
   \<and> (seconds_per_iterations (do_call dbl (run dbl calls (new_context logs)) c) = [] \<longrightarrow>
      seconds_per_iteration (do_call dbl (run dbl calls (new_context logs)) c) =
        seconds_per_iteration (run dbl calls (new_context logs)))
   \<and> seconds_per_iteration (new_context logs) = 0"
proof -
  let ?s = "run dbl calls (new_context logs)"
  have a: "seconds_per_iterations (do_call dbl ?s c) \<noteq> [] \<longrightarrow>
      seconds_per_iteration (do_call dbl ?s c) = average (seconds_per_iterations (do_call dbl ?s c))"
    using run_window_invariant [of dbl "calls @ [c]" logs] unfolding run_snoc by blast
  have b: "seconds_per_iterations (do_call dbl ?s c) = [] \<longrightarrow>
      seconds_per_iteration (do_call dbl ?s c) = seconds_per_iteration ?s"
    by (cases rule: do_call_cases [of dbl ?s c]) simp_all
  show ?thesis
    using a b by (simp add: average_def new_context_fields)
qed

theorem rate_is_mean_or_kept_witness:
  "seconds_per_iterations (do_call dbl_trunc
      (run dbl_trunc [Step 0 (Some 1) (Some 1) 1, Step 0 (Some 1) (Some 1) 2] (new_context []))
      (Iteration 1 None 30)) = []
   \<and> seconds_per_iteration (do_call dbl_trunc
      (run dbl_trunc [Step 0 (Some 1) (Some 1) 1, Step 0 (Some 1) (Some 1) 2] (new_context []))
      (Iteration 1 None 30)) = 1
   \<and> seconds_per_iterations (do_call dbl_trunc
      (run dbl_trunc [Step 0 (Some 1) (Some 1) 1] (new_context []))
      (Step 0 (Some 1) (Some 1) 2)) \<noteq> []
   \<and> seconds_per_iteration (do_call dbl_trunc
      (run dbl_trunc [Step 0 (Some 1) (Some 1) 1] (new_context []))
      (Step 0 (Some 1) (Some 1) 2)) = 1"
proof -
  have w1: "seconds_per_iterations (do_call dbl_trunc
      (run dbl_trunc [Step 0 (Some 1) (Some 1) 1, Step 0 (Some 1) (Some 1) 2] (new_context []))
      (Iteration 1 None 30)) = []"
    by (simp add: run_eval)
  have w2: "seconds_per_iterations (do_call dbl_trunc
      (run dbl_trunc [Step 0 (Some 1) (Some 1) 1] (new_context []))
      (Step 0 (Some 1) (Some 1) 2)) = [\<lparr>diff = 1, when = 2\<rparr>]"
    by (simp add: run_eval)
  show ?thesis
    using rate_is_mean_or_kept [of dbl_trunc
        "[Step 0 (Some 1) (Some 1) 1, Step 0 (Some 1) (Some 1) 2]" "[]" "Iteration 1 None 30"]
      rate_is_mean_or_kept [of dbl_trunc
        "[Step 0 (Some 1) (Some 1) 1]" "[]" "Step 0 (Some 1) (Some 1) 2"]
    by (simp add: w1 w2 stale_prefix_rate del: do_call.simps)
qed

subsection \<open>\<^verbatim>\<open>iteration\<close> without a total\<close>

text \<open>
  Claim C10. In \<^verbatim>\<open>iteration(current, total)\<close> with \<^verbatim>\<open>total\<close> 0 or \<^verbatim>\<open>None\<close>,
  \<^verbatim>\<open>job_iterations\<close> keeps its value, the call sends no \<^verbatim>\<open>iterations\<close> patch (it sends
  \<^verbatim>\<open>secondsPerIteration\<close> when the rate is not 0, then \<^verbatim>\<open>iteration\<close>, then \<^verbatim>\<open>eta\<close>),
  and the \<^verbatim>\<open>eta\<close> patch is computed from the unchanged previous total.
\<close>

theorem iteration_without_total_keeps_iterations:
  assumes "tot = None \<or> tot = Some 0"
  shows "job_iterations (iteration current tot now s) = job_iterations s
       \<and> effects (iteration current tot now s) =
           effects s
           @ (if seconds_per_iteration (iteration current tot now s) \<noteq> 0
              then [Patch ''secondsPerIteration''
                      (JNum (seconds_per_iteration (iteration current tot now s)))]
              else [])
           @ [Patch ''iteration'' (JInt current)]
           @ [if job_iterations s - current > 0
              then Patch ''eta'' (JNum (seconds_per_iteration (iteration current tot now s)
                                         * real_of_int (job_iterations s - current)))
              else Patch ''eta'' (JInt 0)]"
proof -
  have t: "\<not> truthy tot" using assms by (auto simp: truthy_def)
  have r: "seconds_per_iteration (iteration current tot now s) =
           seconds_per_iteration (iteration_record current tot now s)"
    by (simp add: iteration_def iteration_report_fields)
  show ?thesis
    unfolding r
    by (simp add: iteration_def iteration_report_fields iteration_report_effects
        iteration_record_fields t)
qed

lemma example_iterations:
  "effects (iteration 5 (Some 10) 100 (new_context [])) =
     [Patch ''iteration'' (JInt 5), Patch ''iterations'' (JInt 10), Patch ''eta'' (JNum 0)]
   \<and> job_iterations (iteration 5 (Some 10) 100 (new_context [])) = 10
   \<and> seconds_per_iteration (iteration 6 None 101 (iteration 5 (Some 10) 100 (new_context []))) = 1"
  by (simp add: iteration_def iteration_report_fields iteration_report_effects
        iteration_record_fields iteration_record_rate new_context_fields truthy_def
        remove_old_def average_def)

theorem iteration_without_total_keeps_iterations_witness:
  "job_iterations (iteration 6 None 101 (iteration 5 (Some 10) 100 (new_context []))) = 10
   \<and> effects (iteration 6 None 101 (iteration 5 (Some 10) 100 (new_context []))) =
       [Patch ''iteration'' (JInt 5), Patch ''iterations'' (JInt 10), Patch ''eta'' (JNum 0),
        Patch ''secondsPerIteration'' (JNum 1), Patch ''iteration'' (JInt 6),
        Patch ''eta'' (JNum 4)]"
  using iteration_without_total_keeps_iterations
    [of None 6 101 "iteration 5 (Some 10) 100 (new_context [])"]
  by (simp add: example_iterations)

subsection \<open>The metric row read back\<close>

lemma length_le_bytes [simp]: "length (le_bytes n w) = n"
  by (simp add: le_bytes_def)

lemma bit_from_le:
  "bit (from_le bs :: 'a::len word) k \<longleftrightarrow>
     k < LENGTH('a) \<and> k div 8 < length bs \<and> bit (bs ! (k div 8)) (k mod 8)"
proof (induction bs arbitrary: k)
  case Nil
  then show ?case by (simp add: from_le_def)
next
  case (Cons b bs)
  have unfold: "(from_le (b # bs) :: 'a word) = push_bit 8 (from_le bs) OR ucast b"
    by (simp add: from_le_def)
  show ?case
  proof (cases "k < 8")
    case True
    then show ?thesis
      by (auto simp add: unfold bit_simps dest: bit_imp_le_length)
  next
    case False
    then have a: "k div 8 = Suc ((k - 8) div 8)" "k mod 8 = (k - 8) mod 8"
      by (simp_all add: le_div_geq le_mod_geq)
    have b: "\<not> bit (ucast b :: 'a word) k"
      using False by (auto simp add: bit_simps dest: bit_imp_le_length)
    show ?thesis
      using False a b Cons.IH [of "k - 8"]
      by (auto simp add: unfold bit_simps)
  qed
qed

lemma from_le_le_bytes:
  assumes "LENGTH('a::len) \<le> 8 * n"
  shows "from_le (le_bytes n (w :: 'a word)) = w"
proof (rule bit_word_eqI)
  fix k assume k: "k < LENGTH('a)"
  then have "k div 8 < n" using assms by (simp add: less_mult_imp_div_less mult.commute)
  then show "bit (from_le (le_bytes n w) :: 'a word) k = bit w k"
    using k by (simp add: bit_from_le le_bytes_def bit_simps)
qed

lemma from_le_pack_d [simp]: "from_le (pack_d w) = w"
  by (simp add: pack_d_def from_le_le_bytes)

lemma length_pack_d [simp]: "length (pack_d w) = 8"
  by (simp add: pack_d_def)

lemma pack_values_Inr:
  "map stored_value ys = map Inr vs \<Longrightarrow>
   pack_values acc ys = Inr (acc @ concat (map pack_d vs))"
proof (induction ys arbitrary: acc vs)
  case Nil
  then show ?case by simp
next
  case (Cons y ys)
  then obtain v vs' where vs: "vs = v # vs'" "stored_value y = Inr v"
    "map stored_value ys = map Inr vs'"
    by (cases vs) auto
  have "pack_value y = Inr (pack_d v)"
    using vs(2) by (cases y) (auto simp: pack_value_def stored_value_def bind_err_def)
  then show ?case
    using Cons.IH [OF vs(3)] vs(1) by (simp add: bind_err_def)
qed

lemma read_doubles_concat:
  "read_doubles (length vs) (concat (map pack_d vs)) = vs"
  by (induction vs) auto

lemma count_round_trip:
  assumes "n \<le> 65535"
  shows "unat (from_le (le_bytes 2 (of_nat n :: 16 word)) :: 16 word) = n"
proof -
  have "n < 2 ^ LENGTH(16)" using assms by simp
  then have "unat (of_nat n :: 16 word) = n" by (simp only: unat_of_nat mod_less)
  then show ?thesis by (simp add: from_le_le_bytes)
qed

lemma length_concat_pack_d [simp]: "length (concat (map pack_d vs)) = 8 * length vs"
  by (induction vs) auto

text \<open>
  Claim C2. When \<^verbatim>\<open>float(x)\<close> succeeds, there are at most 65535 values and every
  value is \<^verbatim>\<open>None\<close> or converts to a float, the metric row is produced, and reading it
  back by the layout (1-byte version, 2-byte count, 8-byte x, 8-byte timestamp, 8 bytes
  per value, little-endian) gives version 1, the number of values, the float of x, the
  timestamp, and the values with 0.0 for \<^verbatim>\<open>None\<close>.
\<close>

theorem metric_row_round_trip:
  assumes "py_float x = Inr fx"
    and "length ys \<le> 65535"
    and "map stored_value ys = map Inr vs"
  shows "\<exists>row. metric_row x ys now = Inr row
           \<and> spec_decode_metric_row row =
               Some \<lparr> mf_version = 1, mf_value_count = length ys, mf_x = fx,
                      mf_timestamp = now, mf_values = vs \<rparr>"
proof -
  let ?h = "le_bytes 2 (word_of_int (int (length ys)) :: 16 word)"
  let ?row = "[1] @ ?h @ pack_d fx @ pack_d now @ concat (map pack_d vs)"
  have len: "length vs = length ys"
    using assms(3) by (metis length_map)
  have enc: "metric_row x ys now = Inr ?row"
    using assms(1,2) pack_values_Inr [OF assms(3)]
    by (simp add: metric_row_def bind_err_def pack_B_def pack_H_def)
  have dec: "spec_decode_metric_row ?row =
               Some \<lparr> mf_version = 1, mf_value_count = length ys, mf_x = fx,
                      mf_timestamp = now, mf_values = vs \<rparr>"
    using assms(2) len
    by (simp add: spec_decode_metric_row_def count_round_trip Let_def read_doubles_concat [of vs, unfolded len])
  show ?thesis using enc dec by blast
qed

lemma float_of_int_3: "float_of_int 3 = Inr 0x4008000000000000"
  by code_simp

text \<open>
  The row of the specification: \<open>x = 3\<close> and the values 1.5 (\<open>0x3FF8000000000000\<close>)
  and -2.0 (\<open>0xC000000000000000\<close>) decode to the count 2, \<open>x = 3.0\<close>
  (\<open>0x4008000000000000\<close>), the timestamp and the two values.
\<close>

theorem metric_row_round_trip_witness:
  "\<exists>row. metric_row (PInt 3) [PFloat 0x3FF8000000000000, PFloat 0xC000000000000000]
             0x41D9A0C3F5400000 = Inr row
         \<and> spec_decode_metric_row row =
             Some \<lparr> mf_version = 1, mf_value_count = 2, mf_x = 0x4008000000000000,
                    mf_timestamp = 0x41D9A0C3F5400000,
                    mf_values = [0x3FF8000000000000, 0xC000000000000000] \<rparr>"
  using metric_row_round_trip [of "PInt 3" "0x4008000000000000"
      "[PFloat 0x3FF8000000000000, PFloat 0xC000000000000000]"
      "[0x3FF8000000000000, 0xC000000000000000]" "0x41D9A0C3F5400000"]
  by (simp add: float_of_int_3 stored_value_def numeral_2_eq_2)

subsection \<open>\<^verbatim>\<open>metric\<close> and the definition of its channel\<close>

lemma metric_row_eq:
  assumes "py_float x = Inr fx" and "length ys \<le> 65535"
    and "map stored_value ys = map Inr vs"
  shows "metric_row x ys now =
           Inr ([1] @ le_bytes 2 (word_of_int (int (length ys)) :: 16 word)
                @ pack_d fx @ pack_d now @ concat (map pack_d vs))"
  using assms(1,2) pack_values_Inr [OF assms(3)]
  by (simp add: metric_row_def bind_err_def pack_B_def pack_H_def)

lemma metric_row_too_long:
  assumes "py_float x = Inr fx" and "65535 < length ys"
  shows "metric_row x ys now = Inl StructError"
  using assms by (simp add: metric_row_def bind_err_def pack_B_def pack_H_def)

lemma job_action_fields:
  "defined_metrics (job_action n a s) = defined_metrics s"
  "metric_subject (job_action n a s) = metric_subject s"
  "speed_report_subject (job_action n a s) = speed_report_subject s"
  "log_subject (job_action n a s) = log_subject s"
  "shutting_down (job_action n a s) = shutting_down s"
  by (simp_all add: job_action_def)

lemma emitted_append [simp]: "effects s' = effects s @ es \<Longrightarrow> emitted s s' = es"
  by (simp add: emitted_def)

lemma metric_effects:
  "effects (snd (metric name x y now s)) =
     effects s
     @ (if name \<notin> defined_metrics s then [JobAction ''defineMetric'' [JStr name, JDict []]] else [])
     @ (case metric_row x (as_list y) now of
          Inl e \<Rightarrow> []
        | Inr row \<Rightarrow> [Patch (''channels.'' @ name @ ''.lastValue'') (JList (map jval_of (as_list y)))])"
  by (simp add: metric_def define_metric_def Let_def job_action_def patch_def split: sum.split)

lemma metric_defined:
  "defined_metrics (snd (metric name x y now s)) = insert name (defined_metrics s)"
  by (auto simp add: metric_def define_metric_def Let_def job_action_def patch_def split: sum.split)

lemma metric_pending:
  "metric_subject (snd (metric name x y now s)) =
     (case metric_row x (as_list y) now of
        Inl e \<Rightarrow> metric_subject s
      | Inr row \<Rightarrow> on_next (name, row) (metric_subject s))"
  by (simp add: metric_def define_metric_def Let_def job_action_def patch_def split: sum.split)

lemma metric_result:
  "fst (metric name x y now s) =
     (case metric_row x (as_list y) now of Inl e \<Rightarrow> Some e | Inr row \<Rightarrow> None)"
  by (simp add: metric_def Let_def split: sum.split)

lemma iteration_defined:
  "defined_metrics (iteration current tot now s) = defined_metrics s"
  by (simp add: iteration_def iteration_report_def iteration_record_def Let_def patch_def)

lemma step_defined:
  "defined_metrics (snd (step dbl current tot sz now s)) = defined_metrics s"
proof (cases "raises_early current tot sz now s")
  case True
  then show ?thesis by (simp add: step_early patch_def)
next
  case False
  have r: "defined_metrics (step_record tot now t) = defined_metrics t" for t
    by (simp add: step_record_def Let_def patch_def)
  have p: "defined_metrics (snd (step_report dbl tot now x sp t)) = defined_metrics t" for x sp t
    by (simp add: step_report_def Let_def patch_def split: sum.split)
  from step_late [OF False, of dbl] obtain x sp where
    "snd (step dbl current tot sz now s) =
       snd (step_report dbl tot now x sp (step_record tot now (patch ''step'' (JInt current) s)))"
    by blast
  then show ?thesis by (simp add: r p patch_def)
qed

lemma on_log_eq:
  "on_log data s =
     s\<lparr>effects := effects s @
        (if data = [] then []
         else [JobAction ''log'' [JStr ''main_0'', JStr (foldl (\<lambda>packed d. packed @ d) [] data)]])\<rparr>"
  by (simp add: on_log_def job_action_def)

lemma on_speed_report_eq:
  "on_speed_report rows s =
     s\<lparr>effects := effects s @
        (if rows = [] then []
         else [JobAction ''streamFile''
                 [JStr ''.deepkit/speed.metric'', JStr (b64encode (last rows))]])\<rparr>"
  by (simp add: on_speed_report_def job_action_def)

lemma shutdown_defined: "defined_metrics (shutdown s) = defined_metrics s"
  by (simp add: shutdown_def metric_on_completed_def log_on_completed_def client_shutdown_def
      metric_tick_def log_tick_def on_metric_eq on_log_eq Let_def)

lemma perform_defined:
  "name \<in> defined_metrics s \<Longrightarrow> name \<in> defined_metrics (perform dbl s opn)"
proof (cases opn)
  case (Progress c)
  then show "name \<in> defined_metrics s \<Longrightarrow> name \<in> defined_metrics (perform dbl s opn)"
    by (cases c) (simp_all add: iteration_defined step_defined)
next
  case (HardwareTick h)
  then show "name \<in> defined_metrics s \<Longrightarrow> name \<in> defined_metrics (perform dbl s opn)"
    by (simp add: on_hardware_metrics_def job_action_def split: sum.split)
qed (simp_all add: metric_defined define_metric_def job_action_def log_def shutdown_defined
      metric_tick_def speed_tick_def log_tick_def on_metric_eq on_log_eq on_speed_report_eq)

lemma perform_all_defined:
  "name \<in> defined_metrics s \<Longrightarrow> name \<in> defined_metrics (foldl (perform dbl) s ops)"
  by (induction ops arbitrary: s) (simp_all add: perform_defined)

lemma filter_channel_data:
  "filter (is_channel_data_for name) (map (channel_data data) ks) =
     map (channel_data data) (filter (\<lambda>k. k = name) ks)"
  by (induction ks) (auto simp: channel_data_def)

lemma filter_eq_single:
  "distinct ks \<Longrightarrow> name \<in> set ks \<Longrightarrow> filter (\<lambda>k. k = name) ks = [name]"
  by (induction ks) (auto simp: filter_empty_conv)

text \<open>
  Claim C4, amended. \<^verbatim>\<open>metric(name, x, y)\<close> for a name not yet defined sends exactly one
  \<^verbatim>\<open>defineMetric\<close> call, for that name. Whatever happens to the context afterwards, a
  later \<^verbatim>\<open>metric\<close> call with the same name sends no \<^verbatim>\<open>defineMetric\<close> call. When the row
  encodes and the metric subject has not completed, the call returns normally, pushes
  exactly one row for the name, and the next flush sends exactly one \<^verbatim>\<open>channelData\<close>
  call for the name.
\<close>

theorem metric_defines_once:
  assumes "name \<notin> defined_metrics s"
  shows "filter is_define_metric (emitted s (snd (metric name x y now s))) =
           [JobAction ''defineMetric'' [JStr name, JDict []]]
       \<and> (\<forall>ops x' y' now'.
             filter is_define_metric
               (emitted (foldl (perform dbl) (snd (metric name x y now s)) ops)
                  (snd (metric name x' y' now'
                         (foldl (perform dbl) (snd (metric name x y now s)) ops)))) = [])
       \<and> (\<forall>row. metric_row x (as_list y) now = Inr row \<and> \<not> is_stopped (metric_subject s) \<longrightarrow>
             fst (metric name x y now s) = None
           \<and> pending (metric_subject (snd (metric name x y now s))) =
               pending (metric_subject s) @ [(name, row)]
           \<and> length (filter (is_channel_data_for name)
                 (emitted (snd (metric name x y now s))
                    (metric_tick (snd (metric name x y now s))))) = 1)"
proof (intro conjI allI impI)
  show "filter is_define_metric (emitted s (snd (metric name x y now s))) =
           [JobAction ''defineMetric'' [JStr name, JDict []]]"
    using assms by (simp add: metric_effects split: sum.split)
next
  fix ops x' y' now'
  let ?t = "foldl (perform dbl) (snd (metric name x y now s)) ops"
  have "name \<in> defined_metrics ?t"
    by (rule perform_all_defined) (simp add: metric_defined)
  then show "filter is_define_metric (emitted ?t (snd (metric name x' y' now' ?t))) = []"
    by (simp add: metric_effects split: sum.split)
next
  fix row
  assume a: "metric_row x (as_list y) now = Inr row \<and> \<not> is_stopped (metric_subject s)"
  let ?s' = "snd (metric name x y now s)"
  let ?data = "pending (metric_subject s) @ [(name, row)]"
  show "fst (metric name x y now s) = None" using a by (simp add: metric_result)
  show p: "pending (metric_subject ?s') = ?data"
    using a by (simp add: metric_pending on_next_def)
  have st: "\<not> is_stopped (metric_subject ?s')"
    using a by (simp add: metric_pending on_next_def)
  have "effects (metric_tick ?s') =
          effects ?s' @ map (channel_data ?data) (first_seen (map fst ?data))"
    using st p by (simp add: metric_tick_def on_metric_eq)
  then have "emitted ?s' (metric_tick ?s') =
          map (channel_data ?data) (first_seen (map fst ?data))"
    by (rule emitted_append)
  moreover have "filter (\<lambda>k. k = name) (first_seen (map fst ?data)) = [name]"
    by (rule filter_eq_single) simp_all
  ultimately show "length (filter (is_channel_data_for name)
      (emitted ?s' (metric_tick ?s'))) = 1"
    by (simp add: filter_channel_data)
qed

theorem metric_defines_once_witness:
  "''loss'' \<notin> defined_metrics (new_context [])
   \<and> \<not> is_stopped (metric_subject (new_context []))
   \<and> (\<exists>row. metric_row (PInt 3) (as_list (YList [PFloat 0x3FF8000000000000, PNone]))
               0x41D9A0C3F5400000 = Inr row)
   \<and> filter is_define_metric (emitted (new_context [])
        (snd (metric ''loss'' (PInt 3) (YList [PFloat 0x3FF8000000000000, PNone])
               0x41D9A0C3F5400000 (new_context [])))) =
        [JobAction ''defineMetric'' [JStr ''loss'', JDict []]]
   \<and> fst (metric ''loss'' (PInt 3) (YList [PFloat 0x3FF8000000000000, PNone])
               0x41D9A0C3F5400000 (new_context [])) = None
   \<and> length (filter (is_channel_data_for ''loss'')
        (emitted (snd (metric ''loss'' (PInt 3) (YList [PFloat 0x3FF8000000000000, PNone])
                         0x41D9A0C3F5400000 (new_context [])))
           (metric_tick (snd (metric ''loss'' (PInt 3) (YList [PFloat 0x3FF8000000000000, PNone])
                         0x41D9A0C3F5400000 (new_context [])))))) = 1
   \<and> filter is_define_metric
        (emitted (snd (metric ''loss'' (PInt 3) (YList [PFloat 0x3FF8000000000000, PNone])
                         0x41D9A0C3F5400000 (new_context [])))
           (snd (metric ''loss'' (PInt 4) (YScalar (PInt 1)) 0x41D9A0C3F5400000
              (snd (metric ''loss'' (PInt 3) (YList [PFloat 0x3FF8000000000000, PNone])
                         0x41D9A0C3F5400000 (new_context [])))))) = []"
proof -
  let ?y = "YList [PFloat 0x3FF8000000000000, PNone]"
  let ?s1 = "snd (metric ''loss'' (PInt 3) ?y 0x41D9A0C3F5400000 (new_context []))"
  have nd: "''loss'' \<notin> defined_metrics (new_context [])"
    by (simp add: new_context_fields)
  have ns: "\<not> is_stopped (metric_subject (new_context []))"
    by (simp add: new_context_fields)
  obtain row where row: "metric_row (PInt 3) (as_list ?y) 0x41D9A0C3F5400000 = Inr row"
    using metric_row_eq [of "PInt 3" "0x4008000000000000" "[PFloat 0x3FF8000000000000, PNone]"
        "[0x3FF8000000000000, 0]" "0x41D9A0C3F5400000"]
    by (simp add: float_of_int_3 stored_value_def)
  note th = metric_defines_once [OF nd, of "PInt 3" ?y "0x41D9A0C3F5400000" dbl_trunc]
  from th have 1: "filter is_define_metric (emitted (new_context []) ?s1) =
      [JobAction ''defineMetric'' [JStr ''loss'', JDict []]]"
    by (rule conjunct1)
  from th have "\<forall>ops x' y' now'. filter is_define_metric
       (emitted (foldl (perform dbl_trunc) ?s1 ops)
          (snd (metric ''loss'' x' y' now' (foldl (perform dbl_trunc) ?s1 ops)))) = []"
    by (rule conjunct1 [OF conjunct2])
  from this [rule_format, of "[]" "PInt 4" "YScalar (PInt 1)" "0x41D9A0C3F5400000"]
  have 2: "filter is_define_metric
       (emitted ?s1 (snd (metric ''loss'' (PInt 4) (YScalar (PInt 1)) 0x41D9A0C3F5400000 ?s1))) = []"
    by simp
  from th have "\<forall>row. metric_row (PInt 3) (as_list ?y) 0x41D9A0C3F5400000 = Inr row
        \<and> \<not> is_stopped (metric_subject (new_context [])) \<longrightarrow>
      fst (metric ''loss'' (PInt 3) ?y 0x41D9A0C3F5400000 (new_context [])) = None
      \<and> pending (metric_subject ?s1) = pending (metric_subject (new_context [])) @ [(''loss'', row)]
      \<and> length (filter (is_channel_data_for ''loss'') (emitted ?s1 (metric_tick ?s1))) = 1"
    by (rule conjunct2 [OF conjunct2])
  with row ns have 3: "fst (metric ''loss'' (PInt 3) ?y 0x41D9A0C3F5400000 (new_context [])) = None
      \<and> length (filter (is_channel_data_for ''loss'') (emitted ?s1 (metric_tick ?s1))) = 1"
    by blast
  from nd ns row 1 2 3 show ?thesis by blast
qed

text \<open>
  Claim C4 as stated promises the push for every call. With 65536 values \<^verbatim>\<open>struct.pack\<close>
  rejects the count (format \<^verbatim>\<open>H\<close>): \<^verbatim>\<open>defineMetric\<close> has been sent, the call raises, no
  row is pushed and the next flush sends no \<^verbatim>\<open>channelData\<close> call.
\<close>

theorem metric_without_push_counterexample:
  "fst (metric ''loss'' (PInt 3) (YList (replicate 65536 PNone)) 0x41D9A0C3F5400000
          (new_context [])) = Some StructError
   \<and> effects (metric_tick (snd (metric ''loss'' (PInt 3) (YList (replicate 65536 PNone))
          0x41D9A0C3F5400000 (new_context [])))) =
       [JobAction ''defineMetric'' [JStr ''loss'', JDict []]]"
proof -
  let ?ys = "replicate 65536 PNone"
  have len: "65535 < length ?ys" by (simp only: length_replicate)
  have row: "metric_row (PInt 3) (as_list (YList ?ys)) 0x41D9A0C3F5400000 = Inl StructError"
  proof -
    have px: "py_float (PInt 3) = Inr 0x4008000000000000" by (simp add: float_of_int_3)
    show ?thesis unfolding as_list.simps by (rule metric_row_too_long [OF px len])
  qed
  let ?s1 = "snd (metric ''loss'' (PInt 3) (YList ?ys) 0x41D9A0C3F5400000 (new_context []))"
  have r: "fst (metric ''loss'' (PInt 3) (YList ?ys) 0x41D9A0C3F5400000 (new_context []))
            = Some StructError"
    unfolding metric_result row by simp
  have m: "metric_subject ?s1 = \<lparr>pending = [], is_stopped = False\<rparr>"
    unfolding metric_pending row by (simp add: new_context_fields)
  have e: "effects ?s1 = [JobAction ''defineMetric'' [JStr ''loss'', JDict []]]"
    unfolding metric_effects row by (simp add: new_context_fields)
  have "effects (metric_tick ?s1) = effects ?s1"
    unfolding metric_tick_def m by (simp add: on_metric_def)
  with r e show ?thesis by simp
qed

subsection \<open>\<^verbatim>\<open>shutdown\<close> called twice\<close>

lemma shutdown_idempotent: "shutdown (shutdown s) = shutdown s"
  by (simp add: shutdown_def metric_on_completed_def log_on_completed_def client_shutdown_def
      metric_tick_def log_tick_def on_metric_eq on_log_eq Let_def)

lemma shutdown_speed_subject: "speed_report_subject (shutdown s) = speed_report_subject s"
  by (simp add: shutdown_def metric_on_completed_def log_on_completed_def client_shutdown_def
      metric_tick_def log_tick_def on_metric_eq on_log_eq Let_def)

lemma shutdown_effects:
  "effects (shutdown s) =
     effects s @
     (if shutting_down s then []
      else (if is_stopped (metric_subject s) then []
            else OnCompleted MetricSubject #
                 map (channel_data (pending (metric_subject s)))
                   (first_seen (map fst (pending (metric_subject s)))))
         @ (if is_stopped (log_subject s) then []
            else OnCompleted LogSubject #
                 (if pending (log_subject s) = [] then []
                  else [JobAction ''log'' [JStr ''main_0'',
                          JStr (foldl (\<lambda>packed d. packed @ d) [] (pending (log_subject s)))]]))
         @ [ClientShutdown])"
  by (simp add: shutdown_def metric_on_completed_def log_on_completed_def client_shutdown_def
      metric_tick_def log_tick_def on_metric_eq on_log_eq Let_def)

lemma step_first_effects:
  "snd (step dbl 0 (Some 100) (Some 1000) 50 (new_context [])) =
     (new_context [])
       \<lparr> speed_report_subject :=
           \<lparr>pending = [[1] @ pack_d (dbl 0) @ pack_d (dbl 50) @ pack_d (dbl 1000)],
            is_stopped = False\<rparr>,
         last_batch_time := 50,
         effects := [Patch ''step'' (JInt 0), Patch ''speed'' (JNum 1000),
                     Patch ''steps'' (JInt 100)] \<rparr>"
  by (simp add: step_def step_x_def step_speed_def step_record_def step_report_def speed_row_def
      pack_B_def bind_err_def on_next_def patch_def new_context_def remove_old_def truthy_def Let_def)

text \<open>
  Claim C5 expects one completion of each of the four dispatchers. After one \<^verbatim>\<open>step\<close>
  on a new context (a speed row is waiting in the buffer), two \<^verbatim>\<open>shutdown\<close> calls
  complete the metric subject and the log subject once each and shut the client down
  once; neither call completes the speed subject or the hardware interval, and the speed
  row is still in the buffer of the speed subject after both calls.
\<close>

theorem shutdown_twice_skips_speed_and_hardware:
  "emitted (snd (step dbl_trunc 0 (Some 100) (Some 1000) 50 (new_context [])))
     (shutdown (shutdown (snd (step dbl_trunc 0 (Some 100) (Some 1000) 50 (new_context [])))))
     = [OnCompleted MetricSubject, OnCompleted LogSubject, ClientShutdown]
   \<and> speed_report_subject
       (shutdown (shutdown (snd (step dbl_trunc 0 (Some 100) (Some 1000) 50 (new_context [])))))
     = \<lparr>pending = [[1] @ pack_d (dbl_trunc 0) @ pack_d (dbl_trunc 50) @ pack_d (dbl_trunc 1000)],
        is_stopped = False\<rparr>"
proof -
  let ?s0 = "snd (step dbl_trunc 0 (Some 100) (Some 1000) 50 (new_context []))"
  have f: "effects ?s0 = [Patch ''step'' (JInt 0), Patch ''speed'' (JNum 1000),
                          Patch ''steps'' (JInt 100)]"
    "\<not> shutting_down ?s0"
    "metric_subject ?s0 = \<lparr>pending = [], is_stopped = False\<rparr>"
    "log_subject ?s0 = \<lparr>pending = [], is_stopped = False\<rparr>"
    "speed_report_subject ?s0 =
      \<lparr>pending = [[1] @ pack_d (dbl_trunc 0) @ pack_d (dbl_trunc 50) @ pack_d (dbl_trunc 1000)],
        is_stopped = False\<rparr>"
    by (simp_all add: step_first_effects new_context_fields) (simp_all add: new_context_def)
  have "effects (shutdown (shutdown ?s0)) =
          effects ?s0 @ [OnCompleted MetricSubject, OnCompleted LogSubject, ClientShutdown]"
    unfolding shutdown_idempotent shutdown_effects by (simp add: f)
  then have "emitted ?s0 (shutdown (shutdown ?s0)) =
          [OnCompleted MetricSubject, OnCompleted LogSubject, ClientShutdown]"
    by (rule emitted_append)
  moreover have "speed_report_subject (shutdown (shutdown ?s0)) =
      \<lparr>pending = [[1] @ pack_d (dbl_trunc 0) @ pack_d (dbl_trunc 50) @ pack_d (dbl_trunc 1000)],
        is_stopped = False\<rparr>"
    unfolding shutdown_idempotent shutdown_speed_subject by (rule f(5))
  ultimately show ?thesis by simp
qed

subsection \<open>The hardware row read back\<close>

lemma pow2_pos: "0 < pow2 k"
  by (simp add: pow2_def)

lemma round_half_even_nonneg: "0 \<le> m \<Longrightarrow> 0 \<le> round_half_even m"
  by (auto simp add: round_half_even_def Let_def)

lemma round_half_even_le:
  assumes "m \<le> of_int K"
  shows "round_half_even m \<le> K"
proof (cases "m = of_int \<lfloor>m\<rfloor>")
  case True
  then have "round_half_even m = \<lfloor>m\<rfloor>"
    by (simp add: round_half_even_def Let_def)
  moreover have "\<lfloor>m\<rfloor> \<le> K" using assms by (simp add: floor_le_iff)
  ultimately show ?thesis by simp
next
  case False
  moreover have "of_int \<lfloor>m\<rfloor> \<le> m" by (rule of_int_floor_le)
  ultimately have "of_int \<lfloor>m\<rfloor> < m" by linarith
  with assms have "of_int \<lfloor>m\<rfloor> < (of_int K :: real)" by linarith
  then have "\<lfloor>m\<rfloor> + 1 \<le> K" by simp
  moreover have "round_half_even m \<le> \<lfloor>m\<rfloor> + 1"
    by (simp add: round_half_even_def Let_def)
  ultimately show ?thesis by linarith
qed

lemma binade_small:
  assumes "0 < x" "x \<le> 65535"
  shows "binade x \<le> 52"
proof (cases "1 \<le> x")
  case True
  have "\<lfloor>x\<rfloor> < 2 ^ 16" using assms(2) by (simp add: floor_less_iff)
  then have "bitlen \<lfloor>x\<rfloor> \<le> 16"
    using bitlen_le_iff_power [of "\<lfloor>x\<rfloor>" 16] by simp
  then show ?thesis using True by (simp add: binade_def)
next
  case False
  have "0 \<le> bitlen \<lfloor>1 / x\<rfloor>" by (rule bitlen_nonneg)
  moreover have "\<lfloor>1 / x\<rfloor> > 0" using False assms(1) by (simp add: le_divide_eq_1_pos)
  then have "bitlen \<lfloor>1 / x\<rfloor> \<noteq> 0" by (simp add: bitlen_eq_zero_iff)
  ultimately have "1 \<le> bitlen \<lfloor>1 / x\<rfloor>" by linarith
  then show ?thesis using False by (simp add: binade_def Let_def)
qed

lemma binary64_bounds:
  assumes "0 \<le> x" "x \<le> 65535"
  shows "0 \<le> binary64 x" and "binary64 x \<le> 65535"
proof -
  show "0 \<le> binary64 x"
  proof (cases "x = 0")
    case True
    then show ?thesis by (simp add: binary64_def)
  next
    case False
    then have pos: "0 < x" using assms(1) by simp
    have "0 \<le> round_half_even (x / pow2 (max (binade x - 52) (- 1074)))"
      by (rule round_half_even_nonneg) (simp add: pos less_imp_le pow2_pos)
    then show ?thesis
      using pos False by (simp add: binary64_def Let_def less_imp_le pow2_pos)
  qed
  show "binary64 x \<le> 65535"
  proof (cases "x = 0")
    case True
    then show ?thesis by (simp add: binary64_def)
  next
    case False
    then have pos: "0 < x" using assms(1) by simp
    define q where "q = max (binade x - 52) (- 1074)"
    have q0: "q \<le> 0" using binade_small [OF pos assms(2)] by (simp add: q_def)
    have pq: "pow2 q = 1 / 2 ^ nat (- q)"
    proof (cases "q = 0")
      case True then show ?thesis by (simp add: pow2_def)
    next
      case False then show ?thesis using q0 by (simp add: pow2_def)
    qed
    have "x / pow2 q = x * 2 ^ nat (- q)" by (simp add: pq)
    also have "\<dots> \<le> 65535 * 2 ^ nat (- q)" using assms(2) by simp
    also have "\<dots> = of_int (65535 * 2 ^ nat (- q))" by simp
    finally have "round_half_even (x / pow2 q) \<le> 65535 * 2 ^ nat (- q)"
      by (rule round_half_even_le)
    then have "real_of_int (round_half_even (x / pow2 q)) \<le> 65535 * 2 ^ nat (- q)"
      by (metis of_int_le_iff of_int_mult of_int_numeral of_int_power)
    then have "real_of_int (round_half_even (x / pow2 q)) * pow2 q \<le> 65535"
      by (simp add: pq field_simps)
    then show ?thesis
      using pos by (simp add: binary64_def Let_def q_def)
  qed
qed

text \<open>A fraction in \<open>[0,1]\<close> is scaled to the floor of the rounded product, within 16 bits.\<close>

lemma scale_field_fraction:
  assumes "0 \<le> f" "f \<le> 1"
  shows "scale_field f = Inr \<lfloor>binary64 (f * 65535)\<rfloor>"
    and "0 \<le> \<lfloor>binary64 (f * 65535)\<rfloor>" and "\<lfloor>binary64 (f * 65535)\<rfloor> \<le> 65535"
proof -
  have a: "0 \<le> f * 65535" "f * 65535 \<le> 65535" using assms by simp_all
  note b = binary64_bounds [OF a]
  have "\<bar>binary64 (f * 65535)\<bar> < 2 ^ 1024"
  proof -
    have "\<bar>binary64 (f * 65535)\<bar> \<le> 65535" using b by simp
    also have "(65535 :: real) < 2 ^ 1024" by simp
    finally show ?thesis .
  qed
  then show "scale_field f = Inr \<lfloor>binary64 (f * 65535)\<rfloor>"
    using b(1) by (simp add: scale_field_def Let_def py_int_def)
  show "0 \<le> \<lfloor>binary64 (f * 65535)\<rfloor>" using b(1) by simp
  have "\<lfloor>binary64 (f * 65535)\<rfloor> \<le> \<lfloor>65535 :: real\<rfloor>" using b(2) by (rule floor_mono)
  then show "\<lfloor>binary64 (f * 65535)\<rfloor> \<le> 65535" by simp
qed

lemma pack_H_ok:
  "0 \<le> v \<Longrightarrow> v \<le> 65535 \<Longrightarrow> pack_H v = Inr (le_bytes 2 (word_of_int v :: 16 word))"
  by (simp add: pack_H_def)

lemma read_H:
  assumes "0 \<le> v" "v \<le> 65535"
  shows "unat (from_le (le_bytes 2 (word_of_int v :: 16 word)) :: 16 word) = nat v"
proof -
  have "nat v \<le> 65535" using assms by simp
  then have "unat (from_le (le_bytes 2 (of_nat (nat v) :: 16 word)) :: 16 word) = nat v"
    by (rule count_round_trip)
  moreover have "(of_nat (nat v) :: 16 word) = word_of_int v"
    using assms(1) by simp
  ultimately show ?thesis by simp
qed

lemma f32_needs_float:
  "f32_of_int n = Inr r \<Longrightarrow> \<exists>d. float_of_int n = Inr d"
  by (cases "float_of_int n") (simp_all add: f32_of_int_def bind_err_def)

lemma pack_f_int_ok: "f32_of_int n = Inr r \<Longrightarrow> pack_f_int n = Inr (le_bytes 4 r)"
  by (simp add: pack_f_int_def bind_err_def)

text \<open>
  Claim C6, amended. With a non-zero \<^verbatim>\<open>cpu_count\<close>, the CPU and memory fractions (as the
  code computes them, in binary64) in \<open>[0,1]\<close> and counters that fit a binary32, the
  hardware row is produced, has 31 bytes, and read back by the layout (version 1 byte,
  reserved 2, timestamp 8, cpu 2, memory 2, then four 4-byte floats, little-endian) gives
  version 1, reserved 0, the timestamp, the two fractions scaled as the integer part of
  the binary64 product \<open>fraction * 65535\<close> (\<^verbatim>\<open>int(...)\<close> truncates), and the four
  counters as binary32.
\<close>

theorem hardware_row_layout:
  assumes "cpu_count h = Some c" and "c \<noteq> 0" and "\<bar>binary64 (real_of_int c)\<bar> < 2 ^ 1024"
    and "0 \<le> cpu_fraction (cpu_percent h) c" and "cpu_fraction (cpu_percent h) c \<le> 1"
    and "0 \<le> mem_fraction (memory_percent h)" and "mem_fraction (memory_percent h) \<le> 1"
    and "f32_of_int (bytes_recv h) = Inr r1" and "f32_of_int (bytes_sent h) = Inr r2"
    and "f32_of_int (write_bytes h) = Inr r3" and "f32_of_int (read_bytes h) = Inr r4"
  shows "\<exists>row. hardware_row h = Inr row \<and> length row = 31
       \<and> spec_decode_hardware_row row =
           Some \<lparr> hf_version = 1, hf_reserved = 0, hf_timestamp = hw_time h,
                  hf_cpu = nat \<lfloor>binary64 (cpu_fraction (cpu_percent h) c * 65535)\<rfloor>,
                  hf_mem = nat \<lfloor>binary64 (mem_fraction (memory_percent h) * 65535)\<rfloor>,
                  hf_net_recv = r1, hf_net_sent = r2,
                  hf_disk_written = r3, hf_disk_read = r4 \<rparr>"
proof -
  define cpu where "cpu = \<lfloor>binary64 (cpu_fraction (cpu_percent h) c * 65535)\<rfloor>"
  define mem where "mem = \<lfloor>binary64 (mem_fraction (memory_percent h) * 65535)\<rfloor>"
  let ?row = "[1] @ le_bytes 2 (0 :: 16 word) @ pack_d (hw_time h)
              @ le_bytes 2 (word_of_int cpu :: 16 word) @ le_bytes 2 (word_of_int mem :: 16 word)
              @ le_bytes 4 r1 @ le_bytes 4 r2 @ le_bytes 4 r3 @ le_bytes 4 r4"
  note c = scale_field_fraction [OF assms(4,5), folded cpu_def]
  note m = scale_field_fraction [OF assms(6,7), folded mem_def]
  have cf: "cpu_field (cpu_percent h) (cpu_count h) = Inr cpu"
    using assms(1,2,3) c(1) by (simp only: cpu_field_def option.case) simp
  have mf: "mem_field (memory_percent h) = Inr mem"
    using m(1) by (simp only: mem_field_def)
  obtain d1 d2 d3 d4 where d:
    "float_of_int (bytes_recv h) = Inr d1" "float_of_int (bytes_sent h) = Inr d2"
    "float_of_int (write_bytes h) = Inr d3" "float_of_int (read_bytes h) = Inr d4"
    using assms(8-11) by (blast dest: f32_needs_float)
  have h0: "pack_H 0 = Inr (le_bytes 2 (0 :: 16 word))"
    by (simp add: pack_H_def)
  have enc: "hardware_row h = Inr ?row"
    by (simp add: hardware_row_def cf mf d h0 bind_err_def pack_B_def
      pack_f_int_ok [OF assms(8)] pack_f_int_ok [OF assms(9)]
      pack_f_int_ok [OF assms(10)] pack_f_int_ok [OF assms(11)]
      pack_H_ok [OF c(2,3)] pack_H_ok [OF m(2,3)])
  have len: "length ?row = 31" by simp
  have dec: "spec_decode_hardware_row ?row =
           Some \<lparr> hf_version = 1, hf_reserved = 0, hf_timestamp = hw_time h,
                  hf_cpu = nat cpu, hf_mem = nat mem,
                  hf_net_recv = r1, hf_net_sent = r2,
                  hf_disk_written = r3, hf_disk_read = r4 \<rparr>"
  proof -
    have uc: "unat (word_of_int cpu :: 16 word) = nat cpu"
      using read_H [OF c(2,3)] by (simp add: from_le_le_bytes)
    have um: "unat (word_of_int mem :: 16 word) = nat mem"
      using read_H [OF m(2,3)] by (simp add: from_le_le_bytes)
    show ?thesis
      by (simp add: spec_decode_hardware_row_def from_le_le_bytes uc um)
  qed
  from enc len dec show ?thesis unfolding cpu_def mem_def by blast
qed

lemma f32_examples:
  "f32_of_int 1 = Inr 0x3F800000" "f32_of_int 2 = Inr 0x40000000"
  "f32_of_int 3 = Inr 0x40400000" "f32_of_int 123456789 = Inr 0x4CEB79A3"
  by code_simp+

text \<open>
  At 60 percent on 3 cores the binary64 product is just below 13107 and the field is
  13106; at 50 percent of memory the product is 32767.5 and the field is 32767.
\<close>

lemma binary64_examples:
  "\<bar>binary64 (real_of_int 3)\<bar> < 2 ^ 1024"
  "0 \<le> cpu_fraction 60 3" "cpu_fraction 60 3 \<le> 1"
  "0 \<le> mem_fraction 50" "mem_fraction 50 \<le> 1"
  "nat \<lfloor>binary64 (cpu_fraction 60 3 * 65535)\<rfloor> = 13106"
  "nat \<lfloor>binary64 (mem_fraction 50 * 65535)\<rfloor> = 32767"
  by code_simp+

theorem hardware_row_layout_witness:
  "\<exists>row. hardware_row \<lparr>hw_time = 0x41D9A0C3F5400000, cpu_percent = 60, cpu_count = Some 3,
             memory_percent = 50, bytes_recv = 1, bytes_sent = 2, write_bytes = 3,
             read_bytes = 123456789\<rparr> = Inr row \<and> length row = 31
       \<and> spec_decode_hardware_row row =
           Some \<lparr> hf_version = 1, hf_reserved = 0, hf_timestamp = 0x41D9A0C3F5400000,
                  hf_cpu = 13106, hf_mem = 32767,
                  hf_net_recv = 0x3F800000, hf_net_sent = 0x40000000,
                  hf_disk_written = 0x40400000, hf_disk_read = 0x4CEB79A3 \<rparr>"
proof -
  let ?h = "\<lparr>hw_time = 0x41D9A0C3F5400000, cpu_percent = 60, cpu_count = Some 3,
             memory_percent = 50, bytes_recv = 1, bytes_sent = 2, write_bytes = 3,
             read_bytes = 123456789\<rparr>"
  have sel: "cpu_percent ?h = 60" "memory_percent ?h = 50" "cpu_count ?h = Some 3"
    "bytes_recv ?h = 1" "bytes_sent ?h = 2" "write_bytes ?h = 3" "read_bytes ?h = 123456789"
    "hw_time ?h = 0x41D9A0C3F5400000"
    by simp_all
  have nz: "(3 :: int) \<noteq> 0" by simp
  note th = hardware_row_layout [of ?h 3 "0x3F800000" "0x40000000" "0x40400000" "0x4CEB79A3",
      unfolded sel, OF refl nz binary64_examples(1-5) f32_examples, unfolded binary64_examples(6,7)]
  show ?thesis unfolding sel by (rule th)
qed

text \<open>
  Claim C6 as stated has \<open>round(fraction * 65535)\<close>. At 99 percent the product is about
  64879.65: the code stores 64879, rounding gives 64880.
\<close>

theorem scaling_truncates_counterexample:
  "cpu_field 99 (Some 1) = Inr 64879 \<and> mem_field 99 = Inr 64879
   \<and> spec_scale (cpu_fraction 99 1) = 64880 \<and> spec_scale (mem_fraction 99) = 64880"
  by code_simp

end
